theory Spec2Isabelle
  imports Complex_Main "HOL-Library.Sublist"
begin

section \<open>Strings of the source language\<close>

text \<open>
  A string of the source is a sequence of UTF-16 code units; \<open>length\<close> counts code
  units, as \<open>String.prototype.length\<close> and the document's indices do.  ASCII
  literals are written with \<open>js\<close>.
\<close>

type_synonym jsstring = "nat list"

definition js :: "string \<Rightarrow> jsstring" where
  "js s = map of_char s"

text \<open>
  The characters matched by \<open>\s\<close> in a regular expression, which are also the ones
  removed by \<open>trimStart\<close> and \<open>trim\<close> (WhiteSpace and LineTerminator).
\<close>

definition isWhiteSpace :: "nat \<Rightarrow> bool" where
  "isWhiteSpace c =
     (c = 9 \<or> c = 10 \<or> c = 11 \<or> c = 12 \<or> c = 13 \<or> c = 32 \<or> c = 160 \<or> c = 5760 \<or>
      (8192 \<le> c \<and> c \<le> 8202) \<or> c = 8232 \<or> c = 8233 \<or> c = 8239 \<or> c = 8287 \<or>
      c = 12288 \<or> c = 65279)"

definition trimStart :: "jsstring \<Rightarrow> jsstring" where
  "trimStart s = dropWhile isWhiteSpace s"

definition trim :: "jsstring \<Rightarrow> jsstring" where
  "trim s = rev (dropWhile isWhiteSpace (rev (dropWhile isWhiteSpace s)))"

text \<open>\<open>text.indexOf(needle, position)\<close>; \<open>None\<close> stands for the result \<open>-1\<close>.\<close>

definition indexOf :: "jsstring \<Rightarrow> jsstring \<Rightarrow> nat \<Rightarrow> nat option" where
  "indexOf text needle position =
     find (\<lambda>k. take (length needle) (drop k text) = needle)
       [min position (length text) ..< Suc (length text)]"

definition includes_str :: "jsstring \<Rightarrow> jsstring \<Rightarrow> bool" where
  "includes_str text needle = (indexOf text needle 0 \<noteq> None)"


section \<open>The document tree returned by \<open>documents.get\<close>\<close>

text \<open>
  Every field the helpers test for presence is an \<open>option\<close>; the indices of a
  table cell are read without a test.  A paragraph element carries the content of its
  text run, if it has one.
\<close>

datatype paragraphElement =
  ParagraphElement (pe_startIndex: "int option") (pe_endIndex: "int option")
    (pe_content: "jsstring option")

datatype paragraphNode = Paragraph (pg_elements: "paragraphElement list option")

datatype structuralElement =
  StructuralElement (se_startIndex: "int option") (se_endIndex: "int option")
    (se_paragraph: "paragraphNode option") (se_table: "tableNode option")
and tableNode = Table (tableRows: "tableRow list option")
and tableRow = TableRow (tableCells: "tableCell list option")
and tableCell =
  TableCell (cell_startIndex: int) (cell_endIndex: int)
    (cell_content: "structuralElement list option")


section \<open>List detection (\<open>detectAndFormatLists\<close>, first phase)\<close>

datatype bulletPreset =
  BULLET_DISC_CIRCLE_SQUARE | NUMBERED_DECIMAL_NESTED | NUMBERED_UPPERALPHA_ALPHA_ROMAN

definition isBulletGlyph :: "nat \<Rightarrow> bool" where
  "isBulletGlyph c = (c = 45 \<or> c = 42 \<or> c = 8226)"

definition isDigit :: "nat \<Rightarrow> bool" where
  "isDigit c = (48 \<le> c \<and> c \<le> 57)"

definition isLetter :: "nat \<Rightarrow> bool" where
  "isLetter c = ((97 \<le> c \<and> c \<le> 122) \<or> (65 \<le> c \<and> c \<le> 90))"

definition isDotOrParen :: "nat \<Rightarrow> bool" where
  "isDotOrParen c = (c = 46 \<or> c = 41)"

text \<open>The three tests \<open>/^[-*\<bullet>]\s/\<close>, \<open>/^\d+[.)]\s/\<close> and \<open>/^[a-zA-Z][.)]\s/\<close>.\<close>

fun test_bullet :: "jsstring \<Rightarrow> bool" where
  "test_bullet (c # w # rest) = (isBulletGlyph c \<and> isWhiteSpace w)"
| "test_bullet _ = False"

definition test_numbered :: "jsstring \<Rightarrow> bool" where
  "test_numbered t =
     (takeWhile isDigit t \<noteq> [] \<and>
      (case dropWhile isDigit t of
         p # w # rest \<Rightarrow> isDotOrParen p \<and> isWhiteSpace w
       | _ \<Rightarrow> False))"

fun test_lettered :: "jsstring \<Rightarrow> bool" where
  "test_lettered (c # p # w # rest) = (isLetter c \<and> isDotOrParen p \<and> isWhiteSpace w)"
| "test_lettered _ = False"

text \<open>
  The three matches \<open>/^[-*\<bullet>]\s*/\<close>, \<open>/^\d+[.)]\s*/\<close> and \<open>/^[a-zA-Z][.)]\s*/\<close>:
  the matched text, if any.
\<close>

fun match_bullet :: "jsstring \<Rightarrow> jsstring option" where
  "match_bullet (c # rest) =
     (if isBulletGlyph c then Some (c # takeWhile isWhiteSpace rest) else None)"
| "match_bullet [] = None"

definition match_numbered :: "jsstring \<Rightarrow> jsstring option" where
  "match_numbered t =
     (if takeWhile isDigit t = [] then None
      else (case dropWhile isDigit t of
              p # rest \<Rightarrow>
                if isDotOrParen p
                then Some (takeWhile isDigit t @ p # takeWhile isWhiteSpace rest)
                else None
            | [] \<Rightarrow> None))"

fun match_lettered :: "jsstring \<Rightarrow> jsstring option" where
  "match_lettered (c # p # rest) =
     (if isLetter c \<and> isDotOrParen p then Some (c # p # takeWhile isWhiteSpace rest) else None)"
| "match_lettered _ = None"

text \<open>\<open>match(...)?.[0].length || 0\<close>\<close>

definition matchLength :: "jsstring option \<Rightarrow> nat" where
  "matchLength m = (case m of Some s \<Rightarrow> length s | None \<Rightarrow> 0)"

text \<open>
  The classification of one paragraph text: the values of \<open>bulletPreset\<close> and
  \<open>markerLength\<close> after the chain of tests.
\<close>

definition detectMarker :: "jsstring \<Rightarrow> bulletPreset option \<times> nat" where
  "detectMarker paragraphText =
     (let trimmedText = trimStart paragraphText in
      if test_bullet trimmedText then
        (Some BULLET_DISC_CIRCLE_SQUARE, matchLength (match_bullet trimmedText))
      else if test_numbered trimmedText then
        (Some NUMBERED_DECIMAL_NESTED, matchLength (match_numbered trimmedText))
      else if test_lettered trimmedText then
        (Some NUMBERED_UPPERALPHA_ALPHA_ROMAN, matchLength (match_lettered trimmedText))
      else (None, 0))"

text \<open>
  The marker grammars in the words of the specification: a marker, one or more
  whitespace characters \<open>ws\<close>, and a rest that does not go on with whitespace; the
  marker length counts the marker and all of \<open>ws\<close>.
\<close>

definition whitespace_run :: "jsstring \<Rightarrow> jsstring \<Rightarrow> bool" where
  "whitespace_run ws rest =
     (ws \<noteq> [] \<and> list_all isWhiteSpace ws \<and>
      (case rest of [] \<Rightarrow> True | r # _ \<Rightarrow> \<not> isWhiteSpace r))"

definition bullet_marker :: "jsstring \<Rightarrow> nat \<Rightarrow> bool" where
  "bullet_marker t n =
     (\<exists>g ws rest. t = g # ws @ rest \<and> isBulletGlyph g \<and> whitespace_run ws rest \<and>
        n = 1 + length ws)"

definition decimal_marker :: "jsstring \<Rightarrow> nat \<Rightarrow> bool" where
  "decimal_marker t n =
     (\<exists>ds p ws rest. t = ds @ p # ws @ rest \<and> ds \<noteq> [] \<and> list_all isDigit ds \<and>
        isDotOrParen p \<and> whitespace_run ws rest \<and> n = length ds + 1 + length ws)"

definition alpha_marker :: "jsstring \<Rightarrow> nat \<Rightarrow> bool" where
  "alpha_marker t n =
     (\<exists>c p ws rest. t = c # p # ws @ rest \<and> isLetter c \<and> isDotOrParen p \<and>
        whitespace_run ws rest \<and> n = 2 + length ws)"


section \<open>Mutation requests and the remote document\<close>

record rgbColor =
  red :: real
  green :: real
  blue :: real

text \<open>
  The style options that the builders read.  The types \<open>TextStyleArgs\<close> and
  \<open>ParagraphStyleArgs\<close> are declared outside the helpers' file; the fields are those
  the builders test against \<open>undefined\<close>.
\<close>

record textStyleArgs =
  bold :: "bool option"
  italic :: "bool option"
  underline :: "bool option"
  strikethrough :: "bool option"
  fontSize :: "real option"
  fontFamily :: "jsstring option"
  foregroundColor :: "jsstring option"
  backgroundColor :: "jsstring option"
  linkUrl :: "jsstring option"

record paragraphStyleArgs =
  alignment :: "string option"
  indentStart :: "real option"
  indentEnd :: "real option"
  spaceAbove :: "real option"
  spaceBelow :: "real option"
  namedStyleType :: "string option"
  keepWithNext :: "bool option"

text \<open>The text style sent to the service (magnitudes are in points).\<close>

record textStyle =
  ts_bold :: "bool option"
  ts_italic :: "bool option"
  ts_underline :: "bool option"
  ts_strikethrough :: "bool option"
  ts_fontSize :: "real option"
  ts_weightedFontFamily :: "jsstring option"
  ts_foregroundColor :: "rgbColor option"
  ts_backgroundColor :: "rgbColor option"
  ts_link :: "jsstring option"

text \<open>
  The requests the helpers build.  A style request carries the list of field names that
  the source joins with commas; the paragraph style sent is the record of the options
  given.
\<close>

datatype request =
    InsertText int jsstring
  | DeleteContentRange int int
  | InsertTable int int int
  | UpdateTextStyle int int textStyle "string list"
  | UpdateParagraphStyle int int paragraphStyleArgs "string list"
  | CreateParagraphBullets int int bulletPreset

datatype apiError = ApiError (err_code: int) (err_message: jsstring)

datatype error =
    UserError string
  | Error string
  | Rejected apiError

datatype batchUpdateResponse = BatchUpdateResponse (resp_replies: "nat option")

definition emptyResponse :: batchUpdateResponse where
  "emptyResponse = BatchUpdateResponse None"

text \<open>
  What \<open>documents.get\<close> returns: a failure, or the content of the body if it has one.
  The state of the remote side is the document as a fetch returns it, the batches that
  were submitted, in order, and the number of warnings about oversized batches.  The
  service itself, \<open>documents.batchUpdate\<close>, is a parameter: from a request list
  and the document it gives a failure, or the response and the new document.
\<close>

type_synonym fetched = "apiError + structuralElement list option"

record world =
  document :: fetched
  submitted :: "request list list"
  warnings :: nat

type_synonym service = "request list \<Rightarrow> fetched \<Rightarrow> apiError + batchUpdateResponse \<times> fetched"

definition MAX_BATCH_UPDATE_REQUESTS :: nat where
  "MAX_BATCH_UPDATE_REQUESTS = 50"

text \<open>The translation of a failure of \<open>batchUpdate\<close> in the \<open>catch\<close> block.\<close>

definition translateBatchError :: "apiError \<Rightarrow> error" where
  "translateBatchError e =
     (if err_code e = 400 \<and> includes_str (err_message e) (js ''Invalid requests'')
      then UserError ''Invalid request sent to Google Docs API''
      else if err_code e = 404 then UserError ''Document not found''
      else if err_code e = 403 then UserError ''Permission denied for document''
      else Error ''Google API Error'')"

text \<open>\<open>executeBatchUpdate\<close>; a missing request list is \<open>None\<close>.\<close>

definition executeBatchUpdate ::
  "service \<Rightarrow> request list option \<Rightarrow> world \<Rightarrow> (error + batchUpdateResponse) \<times> world" where
  "executeBatchUpdate batchUpdate requests w =
     (case requests of
        None \<Rightarrow> (Inr emptyResponse, w)
      | Some rs \<Rightarrow>
          if length rs = 0 then (Inr emptyResponse, w)
          else
            let w1 = (if length rs > MAX_BATCH_UPDATE_REQUESTS
                      then w\<lparr>warnings := warnings w + 1\<rparr> else w);
                w2 = w1\<lparr>submitted := submitted w1 @ [rs]\<rparr>
            in (case batchUpdate rs (document w) of
                  Inr (response, doc) \<Rightarrow> (Inr response, w2\<lparr>document := doc\<rparr>)
                | Inl e \<Rightarrow> (Inl (translateBatchError e), w2)))"

definition insertText ::
  "service \<Rightarrow> jsstring \<Rightarrow> int \<Rightarrow> world \<Rightarrow> (error + batchUpdateResponse) \<times> world" where
  "insertText batchUpdate text index w =
     (if text = [] then (Inr emptyResponse, w)
      else executeBatchUpdate batchUpdate (Some [InsertText index text]) w)"


section \<open>Style request builders\<close>

text \<open>\<open>hexToRgbColor\<close> is imported by the helpers' file; it is a parameter here.\<close>

definition convertColor ::
  "(jsstring \<Rightarrow> rgbColor option) \<Rightarrow> string \<Rightarrow> jsstring option \<Rightarrow> error + rgbColor option" where
  "convertColor hexToRgbColor message colour =
     (case colour of
        None \<Rightarrow> Inr None
      | Some hex \<Rightarrow>
          (case hexToRgbColor hex of
             None \<Rightarrow> Inl (UserError message)
           | Some rgb \<Rightarrow> Inr (Some rgb)))"

definition textFields :: "textStyleArgs \<Rightarrow> string list" where
  "textFields style =
     (if bold style \<noteq> None then [''bold''] else []) @
     (if italic style \<noteq> None then [''italic''] else []) @
     (if underline style \<noteq> None then [''underline''] else []) @
     (if strikethrough style \<noteq> None then [''strikethrough''] else []) @
     (if fontSize style \<noteq> None then [''fontSize''] else []) @
     (if fontFamily style \<noteq> None then [''weightedFontFamily''] else []) @
     (if foregroundColor style \<noteq> None then [''foregroundColor''] else []) @
     (if backgroundColor style \<noteq> None then [''backgroundColor''] else []) @
     (if linkUrl style \<noteq> None then [''link''] else [])"

definition buildUpdateTextStyleRequest ::
  "(jsstring \<Rightarrow> rgbColor option) \<Rightarrow> int \<Rightarrow> int \<Rightarrow> textStyleArgs \<Rightarrow>
     error + (request \<times> string list) option" where
  "buildUpdateTextStyleRequest hexToRgbColor startIndex endIndex style =
     (case convertColor hexToRgbColor ''Invalid foreground hex color format''
             (foregroundColor style) of
        Inl e \<Rightarrow> Inl e
      | Inr fg \<Rightarrow>
          (case convertColor hexToRgbColor ''Invalid background hex color format''
                  (backgroundColor style) of
             Inl e \<Rightarrow> Inl e
           | Inr bg \<Rightarrow>
               let fieldsToUpdate = textFields style;
                   textStyle = \<lparr>ts_bold = bold style, ts_italic = italic style,
                     ts_underline = underline style, ts_strikethrough = strikethrough style,
                     ts_fontSize = fontSize style, ts_weightedFontFamily = fontFamily style,
                     ts_foregroundColor = fg, ts_backgroundColor = bg, ts_link = linkUrl style\<rparr>
               in if length fieldsToUpdate = 0 then Inr None
                  else Inr (Some (UpdateTextStyle startIndex endIndex textStyle fieldsToUpdate,
                                  fieldsToUpdate))))"

definition paragraphFields :: "paragraphStyleArgs \<Rightarrow> string list" where
  "paragraphFields style =
     (if alignment style \<noteq> None then [''alignment''] else []) @
     (if indentStart style \<noteq> None then [''indentStart''] else []) @
     (if indentEnd style \<noteq> None then [''indentEnd''] else []) @
     (if spaceAbove style \<noteq> None then [''spaceAbove''] else []) @
     (if spaceBelow style \<noteq> None then [''spaceBelow''] else []) @
     (if namedStyleType style \<noteq> None then [''namedStyleType''] else []) @
     (if keepWithNext style \<noteq> None then [''keepWithNext''] else [])"

definition buildUpdateParagraphStyleRequest ::
  "int \<Rightarrow> int \<Rightarrow> paragraphStyleArgs \<Rightarrow> (request \<times> string list) option" where
  "buildUpdateParagraphStyleRequest startIndex endIndex style =
     (let fieldsToUpdate = paragraphFields style
      in if length fieldsToUpdate = 0 then None
         else Some (UpdateParagraphStyle startIndex endIndex style fieldsToUpdate,
                    fieldsToUpdate))"


section \<open>Table lookup\<close>

text \<open>\<open>findTableAtIndex\<close>: the two loops over the content of the body.\<close>

definition isTableNear :: "int \<Rightarrow> structuralElement \<Rightarrow> bool" where
  "isTableNear tableStartIndex element =
     (case (se_table element, se_startIndex element, se_endIndex element) of
        (Some t, Some startIdx, Some endIdx) \<Rightarrow>
          (startIdx \<ge> tableStartIndex - 10 \<and> startIdx \<le> tableStartIndex + 10) \<or>
          startIdx = tableStartIndex
      | _ \<Rightarrow> False)"

definition isTableAfter :: "int \<Rightarrow> structuralElement \<Rightarrow> bool" where
  "isTableAfter tableStartIndex element =
     (case (se_table element, se_startIndex element, se_endIndex element) of
        (Some t, Some startIdx, Some endIdx) \<Rightarrow> startIdx \<ge> tableStartIndex
      | _ \<Rightarrow> False)"

definition tableInfo :: "structuralElement \<Rightarrow> (tableNode \<times> int \<times> int) option" where
  "tableInfo element =
     (case (se_table element, se_startIndex element, se_endIndex element) of
        (Some t, Some startIdx, Some endIdx) \<Rightarrow> Some (t, startIdx, endIdx)
      | _ \<Rightarrow> None)"

definition findTableAtIndex :: "int \<Rightarrow> world \<Rightarrow> error + (tableNode \<times> int \<times> int) option" where
  "findTableAtIndex tableStartIndex w =
     (case document w of
        Inl e \<Rightarrow> Inl (Error ''Failed to find table'')
      | Inr None \<Rightarrow> Inr None
      | Inr (Some content) \<Rightarrow>
          (case find (isTableNear tableStartIndex) content of
             Some element \<Rightarrow> Inr (tableInfo element)
           | None \<Rightarrow>
               (case find (isTableAfter tableStartIndex) content of
                  Some element \<Rightarrow> Inr (tableInfo element)
                | None \<Rightarrow> Inr None)))"

record tableCellRange =
  cellStartIndex :: int
  cellEndIndex :: int
  contentStartIndex :: int
  contentEndIndex :: int
  hasContent :: bool

text \<open>\<open>getTableCellRange\<close>: the loop that finds the table.\<close>

definition isTargetTable :: "int \<Rightarrow> structuralElement \<Rightarrow> bool" where
  "isTargetTable tableStartIndex element =
     (case (se_table element, se_startIndex element) of
        (Some t, Some startIdx) \<Rightarrow> \<bar>startIdx - tableStartIndex\<bar> \<le> 10
      | _ \<Rightarrow> False)"

text \<open>A text run with content that is not empty after \<open>trim\<close>.\<close>

definition hasVisibleText :: "paragraphElement \<Rightarrow> bool" where
  "hasVisibleText elem =
     (case pe_content elem of
        Some c \<Rightarrow> c \<noteq> [] \<and> trim c \<noteq> []
      | None \<Rightarrow> False)"

definition paragraphHasText :: "structuralElement \<Rightarrow> bool" where
  "paragraphHasText contentElement =
     (case se_paragraph contentElement of
        Some (Paragraph (Some elems)) \<Rightarrow> list_ex hasVisibleText elems
      | _ \<Rightarrow> False)"

text \<open>The range of a cell that was found.\<close>

definition cellRangeOf :: "tableCell \<Rightarrow> tableCellRange" where
  "cellRangeOf cell =
     (case cell_content cell of
        Some (firstContent # others) \<Rightarrow>
          \<lparr>cellStartIndex = cell_startIndex cell,
           cellEndIndex = cell_endIndex cell,
           contentStartIndex =
             (case se_startIndex firstContent of
                Some s \<Rightarrow> s | None \<Rightarrow> cell_startIndex cell),
           contentEndIndex =
             (case se_endIndex (last (firstContent # others)) of
                Some e \<Rightarrow> e | None \<Rightarrow> cell_endIndex cell),
           hasContent = list_ex paragraphHasText (firstContent # others)\<rparr>
      | _ \<Rightarrow>
          \<lparr>cellStartIndex = cell_startIndex cell,
           cellEndIndex = cell_endIndex cell,
           contentStartIndex = cell_startIndex cell,
           contentEndIndex = cell_endIndex cell,
           hasContent = False\<rparr>)"

text \<open>
  The lookup in a fetched content.  Reading \<open>tableRows[rowIndex]\<close> or
  \<open>tableCells[columnIndex]\<close> at a negative index gives \<open>undefined\<close>, and the
  property read that follows throws; the \<open>catch\<close> block turns this into an error.
\<close>

definition cellRangeIn ::
  "structuralElement list \<Rightarrow> int \<Rightarrow> int \<Rightarrow> int \<Rightarrow> error + tableCellRange option" where
  "cellRangeIn content tableStartIndex rowIndex columnIndex =
     (case find (isTargetTable tableStartIndex) content of
        None \<Rightarrow> Inr None
      | Some element \<Rightarrow>
          (case se_table element of
             None \<Rightarrow> Inr None
           | Some targetTable \<Rightarrow>
               (case tableRows targetTable of
                  None \<Rightarrow> Inr None
                | Some rows \<Rightarrow>
                    if rowIndex \<ge> int (length rows) then Inr None
                    else if rowIndex < 0 then Inl (Error ''Failed to get table cell range'')
                    else
                      (case tableCells (rows ! nat rowIndex) of
                         None \<Rightarrow> Inr None
                       | Some cells \<Rightarrow>
                           if columnIndex \<ge> int (length cells) then Inr None
                           else if columnIndex < 0
                           then Inl (Error ''Failed to get table cell range'')
                           else Inr (Some (cellRangeOf (cells ! nat columnIndex)))))))"

definition getTableCellRange ::
  "int \<Rightarrow> int \<Rightarrow> int \<Rightarrow> world \<Rightarrow> error + tableCellRange option" where
  "getTableCellRange tableStartIndex rowIndex columnIndex w =
     (case document w of
        Inl e \<Rightarrow> Inl (Error ''Failed to get table cell range'')
      | Inr None \<Rightarrow> Inr None
      | Inr (Some content) \<Rightarrow> cellRangeIn content tableStartIndex rowIndex columnIndex)"


section \<open>Editing a table cell\<close>

datatype editResult = EditResult (success: bool)

text \<open>The requests of the first batch of \<open>editTableCell\<close>.\<close>

definition contentRequests :: "tableCellRange \<Rightarrow> jsstring option \<Rightarrow> request list" where
  "contentRequests cellRange textContent =
     (case textContent of
        None \<Rightarrow> []
      | Some newText \<Rightarrow>
          (if hasContent cellRange then
             (let deleteEnd = contentEndIndex cellRange - 1
              in if deleteEnd > contentStartIndex cellRange
                 then [DeleteContentRange (contentStartIndex cellRange) deleteEnd]
                 else [])
           else []) @
          (if newText \<noteq> [] then [InsertText (contentStartIndex cellRange) newText] else []))"

text \<open>The requests of the second batch, built from the cell range fetched again.\<close>

definition styleRequests ::
  "(jsstring \<Rightarrow> rgbColor option) \<Rightarrow> tableCellRange \<Rightarrow> jsstring \<Rightarrow> textStyleArgs option \<Rightarrow>
     paragraphStyleArgs option \<Rightarrow> error + request list" where
  "styleRequests hexToRgbColor updatedCellRange newText textStyle paragraphStyle =
     (let textStart = contentStartIndex updatedCellRange;
          textEnd = textStart + int (length newText);
          paragraphPart =
            (case paragraphStyle of
               None \<Rightarrow> []
             | Some ps \<Rightarrow>
                 (case buildUpdateParagraphStyleRequest (contentStartIndex updatedCellRange)
                         (contentEndIndex updatedCellRange) ps of
                    None \<Rightarrow> []
                  | Some (r, fs) \<Rightarrow> [r]))
      in (case textStyle of
            None \<Rightarrow> Inr paragraphPart
          | Some ts \<Rightarrow>
              (case buildUpdateTextStyleRequest hexToRgbColor textStart textEnd ts of
                 Inl e \<Rightarrow> Inl e
               | Inr None \<Rightarrow> Inr paragraphPart
               | Inr (Some (r, fs)) \<Rightarrow> Inr (r # paragraphPart))))"

definition editTableCell ::
  "service \<Rightarrow> (jsstring \<Rightarrow> rgbColor option) \<Rightarrow> int \<Rightarrow> int \<Rightarrow> int \<Rightarrow> jsstring option \<Rightarrow>
     textStyleArgs option \<Rightarrow> paragraphStyleArgs option \<Rightarrow> world \<Rightarrow> (error + editResult) \<times> world" where
  "editTableCell batchUpdate hexToRgbColor tableStartIndex rowIndex columnIndex textContent
       textStyle paragraphStyle w =
     (case getTableCellRange tableStartIndex rowIndex columnIndex w of
        Inl e \<Rightarrow> (Inl e, w)
      | Inr None \<Rightarrow> (Inl (UserError ''Could not find cell''), w)
      | Inr (Some cellRange) \<Rightarrow>
          let requests = contentRequests cellRange textContent;
              (r1, w1) = (if length requests > 0
                          then executeBatchUpdate batchUpdate (Some requests) w
                          else (Inr emptyResponse, w))
          in (case r1 of
                Inl e \<Rightarrow> (Inl e, w1)
              | Inr response \<Rightarrow>
                  (case textContent of
                     None \<Rightarrow> (Inr (EditResult True), w1)
                   | Some newText \<Rightarrow>
                       if (textStyle \<noteq> None \<or> paragraphStyle \<noteq> None) \<and> newText \<noteq> [] then
                         (case getTableCellRange tableStartIndex rowIndex columnIndex w1 of
                            Inl e \<Rightarrow> (Inl e, w1)
                          | Inr None \<Rightarrow> (Inr (EditResult True), w1)
                          | Inr (Some updatedCellRange) \<Rightarrow>
                              (case styleRequests hexToRgbColor updatedCellRange newText
                                      textStyle paragraphStyle of
                                 Inl e \<Rightarrow> (Inl e, w1)
                               | Inr srs \<Rightarrow>
                                   if length srs > 0 then
                                     (case executeBatchUpdate batchUpdate (Some srs) w1 of
                                        (Inl e, w2) \<Rightarrow> (Inl e, w2)
                                      | (Inr response2, w2) \<Rightarrow> (Inr (EditResult True), w2))
                                   else (Inr (EditResult True), w1)))
                       else (Inr (EditResult True), w1))))"


section \<open>Text search (\<open>findTextRange\<close>)\<close>

record segment =
  seg_text :: jsstring
  seg_start :: int
  seg_end :: int

text \<open>
  \<open>collectTextFromContent\<close> appends to \<open>fullText\<close> and to \<open>segments\<close>; the pair
  of the two is passed along.  The inner loop over the elements of a paragraph comes
  first.
\<close>

fun collectFromElements ::
  "paragraphElement list \<Rightarrow> jsstring \<times> segment list \<Rightarrow> jsstring \<times> segment list" where
  "collectFromElements [] acc = acc"
| "collectFromElements (pe # pes) (fullText, segments) =
     collectFromElements pes
       (case (pe_content pe, pe_startIndex pe, pe_endIndex pe) of
          (Some content, Some s, Some e) \<Rightarrow>
            if content \<noteq> [] then
              (fullText @ content,
               segments @ [\<lparr>seg_text = content, seg_start = s, seg_end = e\<rparr>])
            else (fullText, segments)
        | _ \<Rightarrow> (fullText, segments))"

fun collectTextFromContent ::
  "structuralElement list \<Rightarrow> jsstring \<times> segment list \<Rightarrow> jsstring \<times> segment list"
and collectFromRows ::
  "tableRow list \<Rightarrow> jsstring \<times> segment list \<Rightarrow> jsstring \<times> segment list"
and collectFromCells ::
  "tableCell list \<Rightarrow> jsstring \<times> segment list \<Rightarrow> jsstring \<times> segment list"
where
  "collectTextFromContent [] acc = acc"
| "collectTextFromContent (StructuralElement s e p t # els) acc =
     collectTextFromContent els
       (let acc1 = (case p of
                      Some (Paragraph (Some pes)) \<Rightarrow> collectFromElements pes acc
                    | _ \<Rightarrow> acc)
        in (case t of
              Some (Table (Some rows)) \<Rightarrow> collectFromRows rows acc1
            | _ \<Rightarrow> acc1))"
| "collectFromRows [] acc = acc"
| "collectFromRows (TableRow cs # rows) acc =
     collectFromRows rows
       (case cs of Some cells \<Rightarrow> collectFromCells cells acc | None \<Rightarrow> acc)"
| "collectFromCells [] acc = acc"
| "collectFromCells (TableCell s e c # cells) acc =
     collectFromCells cells
       (case c of Some content \<Rightarrow> collectTextFromContent content acc | None \<Rightarrow> acc)"

text \<open>
  The loop over the segments that maps the target range of the full text to document
  indices.  It starts with \<open>currentPosInFullText = 0\<close> and \<open>startIndex = endIndex = -1\<close>
  and returns the two indices; finding the end leaves the loop.
\<close>

fun mapToDocument :: "segment list \<Rightarrow> nat \<Rightarrow> int \<Rightarrow> nat \<Rightarrow> nat \<Rightarrow> int \<times> int" where
  "mapToDocument [] currentPosInFullText startIndex targetStart targetEnd = (startIndex, -1)"
| "mapToDocument (seg # segs) currentPosInFullText startIndex targetStart targetEnd =
     (let segStartInFullText = currentPosInFullText;
          segEndInFullText = segStartInFullText + length (seg_text seg);
          startIndex' =
            (if startIndex = -1 \<and> targetStart \<ge> segStartInFullText \<and>
                targetStart < segEndInFullText
             then seg_start seg + (int targetStart - int segStartInFullText)
             else startIndex)
      in if targetEnd > segStartInFullText \<and> targetEnd \<le> segEndInFullText
         then (startIndex', seg_start seg + (int targetEnd - int segStartInFullText))
         else mapToDocument segs segEndInFullText startIndex' targetStart targetEnd)"

text \<open>
  The \<open>while\<close> loop of the search, on the state \<open>foundCount\<close> and
  \<open>searchStartIndex\<close> (\<open>startIndex\<close> and \<open>endIndex\<close> are \<open>-1\<close> whenever the
  loop body starts).  The outer \<open>option\<close> is termination; the inner one is the
  result, \<open>None\<close> for \<open>null\<close>.
\<close>

partial_function (option) searchLoop ::
  "jsstring \<Rightarrow> segment list \<Rightarrow> jsstring \<Rightarrow> nat \<Rightarrow> nat \<Rightarrow> nat \<Rightarrow> (int \<times> int) option option"
where
  "searchLoop fullText segments textToFind instance foundCount searchStartIndex =
     (if foundCount < instance then
        (case indexOf fullText textToFind searchStartIndex of
           None \<Rightarrow> Some None
         | Some currentIndex \<Rightarrow>
             if foundCount + 1 = instance then
               (case mapToDocument segments 0 (-1) currentIndex
                       (currentIndex + length textToFind) of
                  (startIndex, endIndex) \<Rightarrow>
                    if startIndex = -1 \<or> endIndex = -1
                    then searchLoop fullText segments textToFind instance foundCount
                           (currentIndex + 1)
                    else Some (Some (startIndex, endIndex)))
             else searchLoop fullText segments textToFind instance (foundCount + 1)
                    (currentIndex + 1))
      else Some None)"

declare searchLoop.simps [code]

text \<open>The segments, sorted by \<open>start\<close> (the sort of the source is stable).\<close>

definition sortSegments :: "segment list \<Rightarrow> segment list" where
  "sortSegments segments = sort_key seg_start segments"

text \<open>
  \<open>findTextRange\<close> on the fetched content.  A failure of the fetch is rethrown by
  the \<open>catch\<close> block.
\<close>

definition findTextIn ::
  "structuralElement list \<Rightarrow> jsstring \<Rightarrow> nat \<Rightarrow> (int \<times> int) option option" where
  "findTextIn content textToFind instance =
     (case collectTextFromContent content ([], []) of
        (fullText, segments) \<Rightarrow>
          searchLoop fullText (sortSegments segments) textToFind instance 0 0)"

definition findTextRange ::
  "jsstring \<Rightarrow> nat \<Rightarrow> world \<Rightarrow> (error + (int \<times> int) option) option" where
  "findTextRange textToFind instance w =
     (case document w of
        Inl e \<Rightarrow>
          Some (Inl (if err_code e = 404 then UserError ''Document not found while searching text''
                     else if err_code e = 403
                     then UserError ''Permission denied while searching text''
                     else Error ''Failed to retrieve doc for text searching''))
      | Inr None \<Rightarrow> Some (Inr None)
      | Inr (Some content) \<Rightarrow> map_option Inr (findTextIn content textToFind instance))"


section \<open>List conversion (\<open>detectAndFormatLists\<close>)\<close>

text \<open>
  The text of a paragraph in the first phase: the contents of its text runs (a run
  without content, or with empty content, adds nothing).
\<close>

definition paragraphTextOf :: "paragraphNode \<Rightarrow> jsstring" where
  "paragraphTextOf p =
     (case pg_elements p of
        None \<Rightarrow> []
      | Some pes \<Rightarrow> concat (map (\<lambda>pe. case pe_content pe of Some c \<Rightarrow> c | None \<Rightarrow> []) pes))"

text \<open>The request of the first phase for one element of the body, if it gets one.\<close>

definition bulletRequestFor ::
  "int option \<Rightarrow> int option \<Rightarrow> structuralElement \<Rightarrow> request option" where
  "bulletRequestFor startIndex endIndex element =
     (case (se_paragraph element, se_startIndex element, se_endIndex element) of
        (Some p, Some paragraphStart, Some paragraphEnd) \<Rightarrow>
          if (case startIndex of Some s \<Rightarrow> paragraphEnd \<le> s | None \<Rightarrow> False) then None
          else if (case endIndex of Some e \<Rightarrow> paragraphStart \<ge> e | None \<Rightarrow> False) then None
          else
            (case fst (detectMarker (paragraphTextOf p)) of
               Some bulletPreset \<Rightarrow>
                 Some (CreateParagraphBullets paragraphStart paragraphEnd bulletPreset)
             | None \<Rightarrow> None)
      | _ \<Rightarrow> None)"

definition bulletRequests ::
  "int option \<Rightarrow> int option \<Rightarrow> structuralElement list \<Rightarrow> request list" where
  "bulletRequests startIndex endIndex content =
     List.map_filter (bulletRequestFor startIndex endIndex) content"

text \<open>
  The second phase.  The loop over the elements of a paragraph keeps \<open>paragraphText\<close>
  and \<open>textStartIndex\<close>; only a run with content and a start index counts.
\<close>

fun markerText :: "paragraphElement list \<Rightarrow> jsstring \<times> int \<Rightarrow> jsstring \<times> int" where
  "markerText [] st = st"
| "markerText (pe # pes) (paragraphText, textStartIndex) =
     markerText pes
       (case (pe_content pe, pe_startIndex pe) of
          (Some content, Some s) \<Rightarrow>
            if content \<noteq> [] then
              (paragraphText @ content, if paragraphText = [] then s else textStartIndex)
            else (paragraphText, textStartIndex)
        | _ \<Rightarrow> (paragraphText, textStartIndex))"

text \<open>The match \<open>/^([-*\<bullet>]\s*|\d+[.)]\s*|[a-zA-Z][.)]\s*)/\<close>.\<close>

definition match_marker :: "jsstring \<Rightarrow> jsstring option" where
  "match_marker t =
     (case match_bullet t of
        Some m \<Rightarrow> Some m
      | None \<Rightarrow>
          (case match_numbered t of
             Some m \<Rightarrow> Some m
           | None \<Rightarrow> match_lettered t))"

definition deleteRequestFor :: "structuralElement \<Rightarrow> request option" where
  "deleteRequestFor element =
     (case (se_paragraph element, se_startIndex element) of
        (Some p, Some elementStart) \<Rightarrow>
          (case markerText (case pg_elements p of Some pes \<Rightarrow> pes | None \<Rightarrow> [])
                  ([], elementStart) of
             (paragraphText, textStartIndex) \<Rightarrow>
               let trimmedText = trimStart paragraphText;
                   leadingSpaces = int (length paragraphText) - int (length trimmedText)
               in (case match_marker trimmedText of
                     Some markerMatch \<Rightarrow>
                       let markerLength = int (length markerMatch);
                           deleteStart = textStartIndex + leadingSpaces;
                           deleteEnd = deleteStart + markerLength
                       in Some (DeleteContentRange deleteStart deleteEnd)
                   | None \<Rightarrow> None))
      | _ \<Rightarrow> None)"

text \<open>The batch of the second phase, as it is submitted: reversed.\<close>

definition deleteRequests :: "structuralElement list \<Rightarrow> request list" where
  "deleteRequests content = rev (List.map_filter deleteRequestFor content)"

text \<open>A failure of \<open>documents.get\<close> is not caught here.\<close>

definition detectAndFormatLists ::
  "service \<Rightarrow> int option \<Rightarrow> int option \<Rightarrow> world \<Rightarrow> (error + batchUpdateResponse) \<times> world" where
  "detectAndFormatLists batchUpdate startIndex endIndex w =
     (case document w of
        Inl e \<Rightarrow> (Inl (Rejected e), w)
      | Inr None \<Rightarrow> (Inl (UserError ''Document has no content to format.''), w)
      | Inr (Some content) \<Rightarrow>
          let requests = bulletRequests startIndex endIndex content
          in if length requests = 0 then (Inr emptyResponse, w)
             else
               (case executeBatchUpdate batchUpdate (Some requests) w of
                  (Inl e, w1) \<Rightarrow> (Inl e, w1)
                | (Inr result, w1) \<Rightarrow>
                    (case document w1 of
                       Inl e \<Rightarrow> (Inl (Rejected e), w1)
                     | Inr None \<Rightarrow> (Inr result, w1)
                     | Inr (Some updated) \<Rightarrow>
                         let ds = deleteRequests updated
                         in if length ds > 0 then
                              (case executeBatchUpdate batchUpdate (Some ds) w1 of
                                 (Inl e, w2) \<Rightarrow> (Inl e, w2)
                               | (Inr r2, w2) \<Rightarrow> (Inr result, w2))
                            else (Inr result, w1))))"


section \<open>Table population (\<open>createTableWithData\<close>)\<close>

record cellInsertion =
  ci_index :: int
  ci_text :: jsstring
  ci_isBold :: bool

text \<open>\<open>xs[i] || ''\<close> for a list of strings.\<close>

definition stringAt :: "jsstring list \<Rightarrow> nat \<Rightarrow> jsstring" where
  "stringAt xs i = (if i < length xs then xs ! i else [])"

text \<open>
  The index at which the text of a cell is inserted: the start of the first element of
  the first paragraph if it has one, otherwise the start of the first content element.
\<close>

definition insertionIndex :: "structuralElement \<Rightarrow> int option" where
  "insertionIndex firstContent =
     (case (case se_paragraph firstContent of
              Some (Paragraph (Some (pe # pes))) \<Rightarrow> pe_startIndex pe
            | _ \<Rightarrow> None) of
        Some s \<Rightarrow> Some s
      | None \<Rightarrow> se_startIndex firstContent)"

text \<open>
  Whether a data row is a total row; \<open>toLowerCase\<close> is a parameter.  The test reads
  \<open>rows[dataRowIdx][0]\<close>, which must exist and be a non-empty string.
\<close>

definition isTotalRow :: "(jsstring \<Rightarrow> jsstring) \<Rightarrow> jsstring list list \<Rightarrow> nat \<Rightarrow> bool" where
  "isTotalRow toLowerCase rows dataRowIdx =
     (dataRowIdx < length rows \<and>
      (case rows ! dataRowIdx of
         [] \<Rightarrow> False
       | x # xs \<Rightarrow> x \<noteq> [] \<and> includes_str (toLowerCase x) (js ''total'')))"

text \<open>What one cell adds to \<open>cellInsertions\<close>.\<close>

definition cellInsertionFor ::
  "(jsstring \<Rightarrow> jsstring) \<Rightarrow> jsstring list \<Rightarrow> jsstring list list \<Rightarrow> bool \<Rightarrow> bool \<Rightarrow>
     nat \<Rightarrow> nat \<Rightarrow> tableCell \<Rightarrow> cellInsertion list" where
  "cellInsertionFor toLowerCase headers rows boldHeaders boldTotalRow rowIdx colIdx cell =
     (case cell_content cell of
        Some (firstContent # others) \<Rightarrow>
          let cellStartIndex = insertionIndex firstContent;
              cellText =
                (if rowIdx = 0 then stringAt headers colIdx
                 else if rowIdx - 1 < length rows
                 then stringAt (rows ! (rowIdx - 1)) colIdx
                 else []);
              isBold =
                (if rowIdx = 0 then boldHeaders
                 else boldTotalRow \<and> isTotalRow toLowerCase rows (rowIdx - 1))
          in (case cellStartIndex of
                Some i \<Rightarrow>
                  if cellText \<noteq> []
                  then [\<lparr>ci_index = i, ci_text = cellText, ci_isBold = isBold\<rparr>]
                  else []
              | None \<Rightarrow> [])
      | _ \<Rightarrow> [])"

text \<open>The two nested loops over the rows and the cells of the table.\<close>

definition collectCellInsertions ::
  "(jsstring \<Rightarrow> jsstring) \<Rightarrow> jsstring list \<Rightarrow> jsstring list list \<Rightarrow> bool \<Rightarrow> bool \<Rightarrow>
     tableNode \<Rightarrow> cellInsertion list" where
  "collectCellInsertions toLowerCase headers rows boldHeaders boldTotalRow tableElement =
     (let tRows = (case tableRows tableElement of Some rs \<Rightarrow> rs | None \<Rightarrow> [])
      in concat (map (\<lambda>(rowIdx, row).
           let cells = (case tableCells row of Some cs \<Rightarrow> cs | None \<Rightarrow> [])
           in concat (map (\<lambda>(colIdx, cell).
                cellInsertionFor toLowerCase headers rows boldHeaders boldTotalRow
                  rowIdx colIdx cell) (enumerate 0 cells)))
         (enumerate 0 tRows)))"

text \<open>
  Steps 5 and 6: the insertions sorted by descending index (a stable sort), and the
  requests built from them.
\<close>

definition sortInsertions :: "cellInsertion list \<Rightarrow> cellInsertion list" where
  "sortInsertions cellInsertions = sort_key (\<lambda>c. - ci_index c) cellInsertions"

definition textRequests :: "cellInsertion list \<Rightarrow> request list" where
  "textRequests cellInsertions = map (\<lambda>c. InsertText (ci_index c) (ci_text c)) cellInsertions"


text \<open>Step 3: the first table at or after \<open>insertIndex - 5\<close>.\<close>

definition isInsertedTable :: "int \<Rightarrow> structuralElement \<Rightarrow> bool" where
  "isInsertedTable insertIndex element =
     (case (se_table element, se_startIndex element) of
        (Some t, Some startIdx) \<Rightarrow> startIdx \<ge> insertIndex - 5
      | _ \<Rightarrow> False)"

text \<open>Step 7: the bold requests for the runs of the rows to be set in bold.\<close>

definition boldRequestFor :: "paragraphElement \<Rightarrow> request list" where
  "boldRequestFor elem =
     (if hasVisibleText elem then
        (case (pe_startIndex elem, pe_endIndex elem) of
           (Some s, Some e) \<Rightarrow>
             if e > s
             then [UpdateTextStyle s e
                     \<lparr>ts_bold = Some True, ts_italic = None, ts_underline = None,
                      ts_strikethrough = None, ts_fontSize = None,
                      ts_weightedFontFamily = None, ts_foregroundColor = None,
                      ts_backgroundColor = None, ts_link = None\<rparr> [''bold'']]
             else []
         | _ \<Rightarrow> [])
      else [])"

definition boldRequestsOfCell :: "tableCell \<Rightarrow> request list" where
  "boldRequestsOfCell cell =
     concat (map (\<lambda>para.
        case se_paragraph para of
          Some (Paragraph (Some elems)) \<Rightarrow> concat (map boldRequestFor elems)
        | _ \<Rightarrow> [])
       (case cell_content cell of Some c \<Rightarrow> c | None \<Rightarrow> []))"

definition isStyledTable :: "int \<Rightarrow> structuralElement \<Rightarrow> bool" where
  "isStyledTable tableStartIndex element =
     (case (se_table element, se_startIndex element) of
        (Some t, Some startIdx) \<Rightarrow> \<bar>startIdx - tableStartIndex\<bar> \<le> 20
      | _ \<Rightarrow> False)"

definition boldRequests ::
  "(jsstring \<Rightarrow> jsstring) \<Rightarrow> jsstring list list \<Rightarrow> bool \<Rightarrow> bool \<Rightarrow> int \<Rightarrow>
     structuralElement list \<Rightarrow> request list" where
  "boldRequests toLowerCase rows boldHeaders boldTotalRow tableStartIndex content =
     (case find (isStyledTable tableStartIndex) content of
        None \<Rightarrow> []
      | Some element \<Rightarrow>
          let tRows = (case se_table element of
                         Some (Table (Some rs)) \<Rightarrow> rs
                       | _ \<Rightarrow> [])
          in concat (map (\<lambda>(rowIdx, row).
               let shouldBoldRow =
                     (if rowIdx = 0 \<and> boldHeaders then True
                      else boldTotalRow \<and> rowIdx > 0 \<and>
                           isTotalRow toLowerCase rows (rowIdx - 1))
               in if shouldBoldRow
                  then concat (map boldRequestsOfCell
                         (case tableCells row of Some cs \<Rightarrow> cs | None \<Rightarrow> []))
                  else [])
             (enumerate 0 tRows)))"

datatype tableResult = TableResult (tr_success: bool) (tr_tableStartIndex: int)

definition createTableWithData ::
  "service \<Rightarrow> (jsstring \<Rightarrow> jsstring) \<Rightarrow> int \<Rightarrow> jsstring list \<Rightarrow> jsstring list list \<Rightarrow>
     bool \<Rightarrow> bool \<Rightarrow> world \<Rightarrow> (error + tableResult) \<times> world" where
  "createTableWithData batchUpdate toLowerCase insertIndex headers rows boldHeaders
       boldTotalRow w =
     (let numRows = int (length rows) + 1; numCols = length headers
      in if numCols = 0 then (Inl (UserError ''Headers array cannot be empty''), w)
         else
           (case executeBatchUpdate batchUpdate
                   (Some [InsertTable numRows (int numCols) insertIndex]) w of
              (Inl e, w1) \<Rightarrow> (Inl e, w1)
            | (Inr r1, w1) \<Rightarrow>
                (case document w1 of
                   Inl e \<Rightarrow> (Inl (Rejected e), w1)
                 | Inr None \<Rightarrow>
                     (Inl (Error ''Failed to fetch document content after table insertion''), w1)
                 | Inr (Some content) \<Rightarrow>
                     (case find (isInsertedTable insertIndex) content of
                        None \<Rightarrow> (Inl (Error ''Could not find the inserted table''), w1)
                      | Some element \<Rightarrow>
                          (case (se_table element, se_startIndex element) of
                             (Some tableElement, Some tableStartIndex) \<Rightarrow>
                               let cellInsertions =
                                     sortInsertions
                                       (collectCellInsertions toLowerCase headers rows
                                          boldHeaders boldTotalRow tableElement);
                                   trs = textRequests cellInsertions;
                                   (r2, w2) =
                                     (if length trs > 0
                                      then executeBatchUpdate batchUpdate (Some trs) w1
                                      else (Inr emptyResponse, w1))
                               in (case r2 of
                                     Inl e \<Rightarrow> (Inl e, w2)
                                   | Inr resp \<Rightarrow>
                                       if length (filter ci_isBold cellInsertions) > 0 then
                                         (case document w2 of
                                            Inl e \<Rightarrow> (Inl (Rejected e), w2)
                                          | Inr None \<Rightarrow>
                                              (Inr (TableResult True tableStartIndex), w2)
                                          | Inr (Some after) \<Rightarrow>
                                              let brs = boldRequests toLowerCase rows boldHeaders
                                                          boldTotalRow tableStartIndex after
                                              in if length brs > 0 then
                                                   (case executeBatchUpdate batchUpdate
                                                           (Some brs) w2 of
                                                      (Inl e, w3) \<Rightarrow> (Inl e, w3)
                                                    | (Inr r3, w3) \<Rightarrow>
                                                        (Inr (TableResult True tableStartIndex),
                                                         w3))
                                                 else (Inr (TableResult True tableStartIndex), w2))
                                       else (Inr (TableResult True tableStartIndex), w2))
                           | _ \<Rightarrow> (Inl (Error ''Could not find the inserted table''), w1))))))"


text \<open>The requests that change a style.\<close>

fun isStyleRequest :: "request \<Rightarrow> bool" where
  "isStyleRequest (UpdateTextStyle s e style fs) = True"
| "isStyleRequest (UpdateParagraphStyle s e style fs) = True"
| "isStyleRequest r = False"


section \<open>Well-formed trees and the document text\<close>

text \<open>
  A tree is in document order within \<open>[lo, hi]\<close> when every node carries its range,
  the ranges of siblings follow one another without overlap, the ranges of children lie
  within the range of their parent, and the text of a run fits into the range of the
  run.  A structural element without a start index starts at 0 (the service leaves a
  zero index out), and no element is both a paragraph and a table.
\<close>

fun runsInOrder :: "int \<Rightarrow> int \<Rightarrow> paragraphElement list \<Rightarrow> bool" where
  "runsInOrder lo hi [] = (lo \<le> hi)"
| "runsInOrder lo hi (pe # pes) =
     (case (pe_startIndex pe, pe_endIndex pe) of
        (Some s, Some e) \<Rightarrow>
          lo \<le> s \<and>
          s + int (length (case pe_content pe of Some c \<Rightarrow> c | None \<Rightarrow> [])) \<le> e \<and>
          runsInOrder e hi pes
      | _ \<Rightarrow> False)"

definition endOfCells :: "int \<Rightarrow> tableCell list \<Rightarrow> int" where
  "endOfCells lo cells = (case cells of [] \<Rightarrow> lo | c # cs \<Rightarrow> cell_endIndex (last cells))"

fun contentInOrder :: "int \<Rightarrow> int \<Rightarrow> structuralElement list \<Rightarrow> bool"
and rowsInOrder :: "int \<Rightarrow> int \<Rightarrow> tableRow list \<Rightarrow> bool"
and cellsInOrder :: "int \<Rightarrow> int \<Rightarrow> tableCell list \<Rightarrow> bool"
where
  "contentInOrder lo hi [] = (lo \<le> hi)"
| "contentInOrder lo hi (StructuralElement s e p t # els) =
     (case e of
        None \<Rightarrow> False
      | Some b \<Rightarrow>
          let a = (case s of Some a \<Rightarrow> a | None \<Rightarrow> 0)
          in lo \<le> a \<and> a \<le> b \<and>
             (case p of
                Some (Paragraph pes) \<Rightarrow>
                  t = None \<and> runsInOrder a b (case pes of Some xs \<Rightarrow> xs | None \<Rightarrow> [])
              | None \<Rightarrow>
                  (case t of
                     Some (Table (Some rows)) \<Rightarrow> rowsInOrder a b rows
                   | _ \<Rightarrow> True)) \<and>
             contentInOrder b hi els)"
| "rowsInOrder lo hi [] = (lo \<le> hi)"
| "rowsInOrder lo hi (TableRow cs # rows) =
     (case cs of
        None \<Rightarrow> rowsInOrder lo hi rows
      | Some cells \<Rightarrow> cellsInOrder lo hi cells \<and> rowsInOrder (endOfCells lo cells) hi rows)"
| "cellsInOrder lo hi [] = (lo \<le> hi)"
| "cellsInOrder lo hi (TableCell s e c # cells) =
     (lo \<le> s \<and> s \<le> e \<and>
      (case c of Some content \<Rightarrow> contentInOrder s e content | None \<Rightarrow> True) \<and>
      cellsInOrder e hi cells)"

text \<open>
  The text runs of a tree in document order: the runs of a paragraph, and the runs of
  every cell of every row of a table.
\<close>

definition runsOfElements :: "paragraphElement list \<Rightarrow> jsstring list" where
  "runsOfElements pes = map (\<lambda>pe. case pe_content pe of Some c \<Rightarrow> c | None \<Rightarrow> []) pes"

fun textRuns :: "structuralElement list \<Rightarrow> jsstring list"
and textRunsOfRows :: "tableRow list \<Rightarrow> jsstring list"
and textRunsOfCells :: "tableCell list \<Rightarrow> jsstring list"
where
  "textRuns [] = []"
| "textRuns (StructuralElement s e p t # els) =
     (case p of Some (Paragraph (Some pes)) \<Rightarrow> runsOfElements pes | _ \<Rightarrow> []) @
     (case t of Some (Table (Some rows)) \<Rightarrow> textRunsOfRows rows | _ \<Rightarrow> []) @
     textRuns els"
| "textRunsOfRows [] = []"
| "textRunsOfRows (TableRow cs # rows) =
     (case cs of Some cells \<Rightarrow> textRunsOfCells cells | None \<Rightarrow> []) @ textRunsOfRows rows"
| "textRunsOfCells [] = []"
| "textRunsOfCells (TableCell s e c # cells) =
     (case c of Some content \<Rightarrow> textRuns content | None \<Rightarrow> []) @ textRunsOfCells cells"

text \<open>The text of the document: its text runs in document order, concatenated.\<close>

definition documentText :: "structuralElement list \<Rightarrow> jsstring" where
  "documentText content = concat (textRuns content)"


text \<open>
  The segments of a tree without the accumulator: what a run contributes, and the
  segments of a content list, of rows and of cells, in the order of the traversal.
\<close>

definition runSegment :: "paragraphElement \<Rightarrow> segment list" where
  "runSegment pe =
     (case (pe_content pe, pe_startIndex pe, pe_endIndex pe) of
        (Some content, Some s, Some e) \<Rightarrow>
          if content \<noteq> [] then [\<lparr>seg_text = content, seg_start = s, seg_end = e\<rparr>] else []
      | _ \<Rightarrow> [])"

fun treeSegments :: "structuralElement list \<Rightarrow> segment list"
and rowSegments :: "tableRow list \<Rightarrow> segment list"
and cellSegments :: "tableCell list \<Rightarrow> segment list"
where
  "treeSegments [] = []"
| "treeSegments (StructuralElement s e p t # els) =
     (case p of Some (Paragraph (Some pes)) \<Rightarrow> concat (map runSegment pes) | _ \<Rightarrow> []) @
     (case t of Some (Table (Some rows)) \<Rightarrow> rowSegments rows | _ \<Rightarrow> []) @
     treeSegments els"
| "rowSegments [] = []"
| "rowSegments (TableRow cs # rows) =
     (case cs of Some cells \<Rightarrow> cellSegments cells | None \<Rightarrow> []) @ rowSegments rows"
| "cellSegments [] = []"
| "cellSegments (TableCell s e c # cells) =
     (case c of Some content \<Rightarrow> treeSegments content | None \<Rightarrow> []) @ cellSegments cells"


text \<open>The flattened tree: the segments collected, then sorted.\<close>

definition collectedSegments :: "structuralElement list \<Rightarrow> segment list" where
  "collectedSegments content = snd (collectTextFromContent content ([], []))"

definition flatten :: "structuralElement list \<Rightarrow> segment list" where
  "flatten content = sortSegments (collectedSegments content)"

text \<open>
  Segments that follow one another within \<open>[lo, hi]\<close>, each with a text that fits
  into its range.
\<close>

fun segmentsInOrder :: "int \<Rightarrow> int \<Rightarrow> segment list \<Rightarrow> bool" where
  "segmentsInOrder lo hi [] = (lo \<le> hi)"
| "segmentsInOrder lo hi (seg # segs) =
     (lo \<le> seg_start seg \<and> seg_start seg + int (length (seg_text seg)) \<le> seg_end seg \<and>
      segmentsInOrder (seg_end seg) hi segs)"

text \<open>
  The position of a character of the concatenated text in the document: the start of
  the segment that holds it, plus the offset within that segment.
\<close>

fun docOffset :: "segment list \<Rightarrow> nat \<Rightarrow> int" where
  "docOffset [] p = -1"
| "docOffset (seg # segs) p =
     (if p < length (seg_text seg) then seg_start seg + int p
      else docOffset segs (p - length (seg_text seg)))"

text \<open>
  The positions at or after \<open>from\<close> at which the needle occurs in the text, in
  ascending order; occurrences may overlap.
\<close>

definition matchesFrom :: "jsstring \<Rightarrow> jsstring \<Rightarrow> nat \<Rightarrow> nat list" where
  "matchesFrom text needle from =
     filter (\<lambda>k. take (length needle) (drop k text) = needle) [from ..< Suc (length text)]"

text \<open>
  The matches that do not overlap, taken from left to right: a position counts when the
  needle occurs there and the match before it has ended.
\<close>

fun greedyMatches :: "jsstring \<Rightarrow> jsstring \<Rightarrow> nat list \<Rightarrow> nat \<Rightarrow> nat list" where
  "greedyMatches text needle [] free = []"
| "greedyMatches text needle (k # ks) free =
     (if free \<le> k \<and> take (length needle) (drop k text) = needle
      then k # greedyMatches text needle ks (k + length needle)
      else greedyMatches text needle ks free)"

definition nonOverlappingMatches :: "jsstring \<Rightarrow> jsstring \<Rightarrow> nat list" where
  "nonOverlappingMatches text needle = greedyMatches text needle [0 ..< Suc (length text)] 0"

text \<open>The offset at which an insertion or a deletion starts.\<close>

fun requestStart :: "request \<Rightarrow> int" where
  "requestStart (InsertText i t) = i"
| "requestStart (DeleteContentRange s e) = s"
| "requestStart (InsertTable r c i) = i"
| "requestStart (UpdateTextStyle s e style fs) = s"
| "requestStart (UpdateParagraphStyle s e style fs) = s"
| "requestStart (CreateParagraphBullets s e preset) = s"

definition strictlyDescending :: "request list \<Rightarrow> bool" where
  "strictlyDescending rs = sorted_wrt (>) (map requestStart rs)"

text \<open>The insertion indices of the cells of a table, row by row.\<close>

definition cellInsertionIndex :: "tableCell \<Rightarrow> int option" where
  "cellInsertionIndex cell =
     (case cell_content cell of
        Some (firstContent # others) \<Rightarrow> insertionIndex firstContent
      | _ \<Rightarrow> None)"

definition tableInsertionIndices :: "tableNode \<Rightarrow> int list" where
  "tableInsertionIndices tableElement =
     List.map_filter cellInsertionIndex
       (concat (map (\<lambda>row. case tableCells row of Some cs \<Rightarrow> cs | None \<Rightarrow> [])
          (case tableRows tableElement of Some rs \<Rightarrow> rs | None \<Rightarrow> [])))"


section \<open>Sample data\<close>

text \<open>A service that accepts every batch and leaves the document as it is.\<close>

definition acceptAll :: service where
  "acceptAll rs doc = Inr (emptyResponse, doc)"

text \<open>
  A service that answers with the number of requests it received and an empty body, and
  a service that refuses every batch.
\<close>

definition countRequests :: service where
  "countRequests rs doc = Inr (BatchUpdateResponse (Some (length rs)), Inr (Some []))"

definition refuseAll :: service where
  "refuseAll rs doc = Inl (ApiError 403 [])"

text \<open>A service that accepts every batch and answers with a given document.\<close>

definition respondWith :: "structuralElement list \<Rightarrow> service" where
  "respondWith content rs doc = Inr (emptyResponse, Inr (Some content))"

definition noColor :: "jsstring \<Rightarrow> rgbColor option" where
  "noColor hex = None"

definition noTextStyle :: textStyleArgs where
  "noTextStyle =
     \<lparr>bold = None, italic = None, underline = None, strikethrough = None, fontSize = None,
      fontFamily = None, foregroundColor = None, backgroundColor = None, linkUrl = None\<rparr>"

definition noParagraphStyle :: paragraphStyleArgs where
  "noParagraphStyle =
     \<lparr>alignment = None, indentStart = None, indentEnd = None, spaceAbove = None,
      spaceBelow = None, namedStyleType = None, keepWithNext = None\<rparr>"

definition boldStyle :: textStyleArgs where
  "boldStyle = noTextStyle\<lparr>bold := Some True\<rparr>"

text \<open>A paragraph with one text run that starts at \<open>s\<close>.\<close>

definition paragraphAt :: "int \<Rightarrow> jsstring \<Rightarrow> structuralElement" where
  "paragraphAt s content =
     StructuralElement (Some s) (Some (s + int (length content)))
       (Some (Paragraph (Some
          [ParagraphElement (Some s) (Some (s + int (length content))) (Some content)])))
       None"

text \<open>
  A table of one row and one cell that starts at \<open>s\<close>; the cell holds the paragraph
  \<open>a\<close> with its newline.
\<close>

definition tableAt :: "int \<Rightarrow> structuralElement" where
  "tableAt s =
     StructuralElement (Some s) (Some (s + 6)) None
       (Some (Table (Some
          [TableRow (Some [TableCell (s + 2) (s + 5) (Some [paragraphAt (s + 3) [97, 10]])])])))"

text \<open>
  A document: the section break at the start, a paragraph, a table and a paragraph.
\<close>

definition exampleDocument :: "structuralElement list" where
  "exampleDocument =
     [StructuralElement None (Some 1) None None, paragraphAt 1 [72, 105, 10], tableAt 4,
      paragraphAt 10 [97, 97, 97, 10]]"

text \<open>Two paragraphs with list markers: \<open>- a\<close> and, after two spaces, \<open>2. b\<close>.\<close>

definition listDocument :: "structuralElement list" where
  "listDocument = [paragraphAt 1 [45, 32, 97, 10], paragraphAt 5 [32, 32, 50, 46, 32, 98, 10]]"

text \<open>A table of one row and two empty cells, as it is after \<open>insertTable\<close>.\<close>

definition twoCellTable :: tableNode where
  "twoCellTable =
     Table (Some [TableRow (Some
       [TableCell 6 8 (Some [paragraphAt 7 [10]]), TableCell 8 10 (Some [paragraphAt 9 [10]])])])"

definition twoCellDocument :: "structuralElement list" where
  "twoCellDocument = [StructuralElement (Some 5) (Some 11) None (Some twoCellTable)]"

text \<open>Two paragraphs \<open>a\<close> and \<open>b\<close> with the offsets 2 to 4 between them.\<close>

definition gapDocument :: "structuralElement list" where
  "gapDocument = [paragraphAt 1 [97], paragraphAt 5 [98]]"

definition worldWith :: "structuralElement list \<Rightarrow> world" where
  "worldWith content = \<lparr>document = Inr (Some content), submitted = [], warnings = 0\<rparr>"


section \<open>Theorems\<close>

subsection \<open>The marker grammars\<close>

lemma span_unique:
  "(xs = ws @ rest \<and> list_all P ws \<and> (case rest of [] \<Rightarrow> True | r # _ \<Rightarrow> \<not> P r)) \<longleftrightarrow>
   (takeWhile P xs = ws \<and> dropWhile P xs = rest)"
proof
  assume a: "xs = ws @ rest \<and> list_all P ws \<and> (case rest of [] \<Rightarrow> True | r # _ \<Rightarrow> \<not> P r)"
  then have all: "\<forall>x\<in>set ws. P x" by (simp add: list_all_iff)
  from a have tw: "takeWhile P rest = []" by (cases rest) auto
  from a have dw: "dropWhile P rest = rest" by (cases rest) auto
  from a all tw dw show "takeWhile P xs = ws \<and> dropWhile P xs = rest"
    by (simp add: takeWhile_append2 dropWhile_append2)
next
  assume b: "takeWhile P xs = ws \<and> dropWhile P xs = rest"
  have "list_all P (takeWhile P xs)" by (auto simp: list_all_iff dest: set_takeWhileD)
  moreover have "case dropWhile P xs of [] \<Rightarrow> True | r # _ \<Rightarrow> \<not> P r"
    using hd_dropWhile[of P xs] by (cases "dropWhile P xs") (simp_all del: dropWhile_eq_Nil_conv)
  moreover have "xs = takeWhile P xs @ dropWhile P xs" by simp
  ultimately show "xs = ws @ rest \<and> list_all P ws \<and> (case rest of [] \<Rightarrow> True | r # _ \<Rightarrow> \<not> P r)"
    unfolding conjunct1[OF b] conjunct2[OF b] by (intro conjI)
qed

lemma whitespace_run_iff:
  "(xs = ws @ rest \<and> whitespace_run ws rest) \<longleftrightarrow>
   (takeWhile isWhiteSpace xs = ws \<and> dropWhile isWhiteSpace xs = rest \<and> ws \<noteq> [])"
  unfolding whitespace_run_def using span_unique[of xs ws rest isWhiteSpace] by blast

lemma ex_run:
  "(\<exists>ws rest. xs = ws @ rest \<and> whitespace_run ws rest \<and> Q ws) \<longleftrightarrow>
   (takeWhile isWhiteSpace xs \<noteq> [] \<and> Q (takeWhile isWhiteSpace xs))"
proof
  assume "\<exists>ws rest. xs = ws @ rest \<and> whitespace_run ws rest \<and> Q ws"
  then obtain ws rest where a: "xs = ws @ rest \<and> whitespace_run ws rest" and q: "Q ws"
    by blast
  have c: "takeWhile isWhiteSpace xs = ws \<and> dropWhile isWhiteSpace xs = rest \<and> ws \<noteq> []"
    by (rule iffD1[OF whitespace_run_iff a])
  show "takeWhile isWhiteSpace xs \<noteq> [] \<and> Q (takeWhile isWhiteSpace xs)"
    unfolding conjunct1[OF c] using c q by (intro conjI) simp_all
next
  assume b: "takeWhile isWhiteSpace xs \<noteq> [] \<and> Q (takeWhile isWhiteSpace xs)"
  have "xs = takeWhile isWhiteSpace xs @ dropWhile isWhiteSpace xs \<and>
      whitespace_run (takeWhile isWhiteSpace xs) (dropWhile isWhiteSpace xs)"
    by (rule iffD2[OF whitespace_run_iff]) (intro conjI refl conjunct1[OF b])
  then show "\<exists>ws rest. xs = ws @ rest \<and> whitespace_run ws rest \<and> Q ws"
    using conjunct2[OF b] by (intro exI[where x = "takeWhile isWhiteSpace xs"]
        exI[where x = "dropWhile isWhiteSpace xs"] conjI) simp_all
qed

lemma takeWhile_nonempty_iff: "takeWhile P xs \<noteq> [] \<longleftrightarrow> (\<exists>x rest. xs = x # rest \<and> P x)"
  by (cases xs) auto

lemma bullet_marker_iff:
  "bullet_marker t n \<longleftrightarrow> test_bullet t \<and> n = matchLength (match_bullet t)"
proof (cases t)
  case Nil
  then show ?thesis by (simp add: bullet_marker_def)
next
  case (Cons g xs)
  have "bullet_marker t n \<longleftrightarrow>
        (isBulletGlyph g \<and> takeWhile isWhiteSpace xs \<noteq> [] \<and> n = 1 + length (takeWhile isWhiteSpace xs))"
    unfolding bullet_marker_def Cons using ex_run[of xs "\<lambda>ws. n = 1 + length ws"] by blast
  also have "\<dots> \<longleftrightarrow> test_bullet t \<and> n = matchLength (match_bullet t)"
    unfolding Cons by (cases xs) (auto simp: matchLength_def)
  finally show ?thesis .
qed

lemma alpha_marker_iff:
  "alpha_marker t n \<longleftrightarrow> test_lettered t \<and> n = matchLength (match_lettered t)"
proof (cases t)
  case Nil
  then show ?thesis by (simp add: alpha_marker_def)
next
  case (Cons c t')
  show ?thesis
  proof (cases t')
    case Nil
    then show ?thesis using Cons by (simp add: alpha_marker_def)
  next
    case (Cons p xs)
    have "alpha_marker t n \<longleftrightarrow>
        (isLetter c \<and> isDotOrParen p \<and> takeWhile isWhiteSpace xs \<noteq> [] \<and>
         n = 2 + length (takeWhile isWhiteSpace xs))"
      unfolding alpha_marker_def \<open>t = c # t'\<close> Cons using ex_run[of xs "\<lambda>ws. n = 2 + length ws"] by blast
    also have "\<dots> \<longleftrightarrow> test_lettered t \<and> n = matchLength (match_lettered t)"
      unfolding \<open>t = c # t'\<close> Cons by (cases xs) (auto simp: matchLength_def)
    finally show ?thesis .
  qed
qed

lemma digits_not_dot: "isDotOrParen p \<Longrightarrow> \<not> isDigit p"
  by (auto simp: isDotOrParen_def isDigit_def)

lemma decimal_marker_iff:
  "decimal_marker t n \<longleftrightarrow> test_numbered t \<and> n = matchLength (match_numbered t)"
proof
  assume "decimal_marker t n"
  then obtain ds p ws rest where t: "t = ds @ p # ws @ rest" and ds: "ds \<noteq> []" "list_all isDigit ds"
    and p: "isDotOrParen p" and ws: "whitespace_run ws rest" and n: "n = length ds + 1 + length ws"
    unfolding decimal_marker_def by blast
  have "takeWhile isDigit t = ds \<and> dropWhile isDigit t = p # ws @ rest"
    by (rule iffD1[OF span_unique]) (simp add: t ds p digits_not_dot)
  then have tw: "takeWhile isDigit t = ds" and dw: "dropWhile isDigit t = p # ws @ rest"
    by simp_all
  have "takeWhile isWhiteSpace (ws @ rest) = ws \<and> dropWhile isWhiteSpace (ws @ rest) = rest \<and> ws \<noteq> []"
    by (rule iffD1[OF whitespace_run_iff]) (simp add: ws)
  then have w: "takeWhile isWhiteSpace (ws @ rest) = ws" and wne: "ws \<noteq> []" by simp_all
  from wne obtain w ws' where wsC: "ws = w # ws'" by (cases ws) auto
  have "isWhiteSpace w" using ws wsC by (simp add: whitespace_run_def)
  then show "test_numbered t \<and> n = matchLength (match_numbered t)"
    using ds p n w wsC unfolding test_numbered_def match_numbered_def matchLength_def tw dw
    by simp
next
  assume a: "test_numbered t \<and> n = matchLength (match_numbered t)"
  then obtain p w xs where d: "dropWhile isDigit t = p # w # xs" and p: "isDotOrParen p"
    and w: "isWhiteSpace w" and ne: "takeWhile isDigit t \<noteq> []"
    unfolding test_numbered_def by (auto split: list.splits)
  let ?ws = "takeWhile isWhiteSpace (w # xs)"
  let ?rest = "dropWhile isWhiteSpace (w # xs)"
  have run: "w # xs = ?ws @ ?rest \<and> whitespace_run ?ws ?rest"
    by (rule iffD2[OF whitespace_run_iff]) (simp add: w)
  have t: "t = takeWhile isDigit t @ p # ?ws @ ?rest"
    using takeWhile_dropWhile_id[of isDigit t] d run by simp
  have n: "n = length (takeWhile isDigit t) + 1 + length ?ws"
    using a ne p d by (simp add: match_numbered_def matchLength_def)
  have dig: "list_all isDigit (takeWhile isDigit t)"
    by (auto simp: list_all_iff dest: set_takeWhileD)
  have body: "t = takeWhile isDigit t @ p # ?ws @ ?rest \<and> takeWhile isDigit t \<noteq> [] \<and>
      list_all isDigit (takeWhile isDigit t) \<and> isDotOrParen p \<and> whitespace_run ?ws ?rest \<and>
      n = length (takeWhile isDigit t) + 1 + length ?ws"
    by (intro conjI t ne dig p conjunct2[OF run] n)
  show "decimal_marker t n"
    unfolding decimal_marker_def
    by (rule exI[where x = "takeWhile isDigit t"], rule exI[where x = p],
        rule exI[where x = "?ws"], rule exI[where x = "?rest"]) (rule body)
qed

lemma test_bullet_hd: "test_bullet t \<Longrightarrow> \<exists>c r. t = c # r \<and> isBulletGlyph c"
  by (cases t rule: test_bullet.cases) simp_all

lemma test_numbered_hd: "test_numbered t \<Longrightarrow> \<exists>c r. t = c # r \<and> isDigit c"
  by (simp add: test_numbered_def takeWhile_nonempty_iff)

lemma test_lettered_hd: "test_lettered t \<Longrightarrow> \<exists>c r. t = c # r \<and> isLetter c"
  by (cases t rule: test_lettered.cases) simp_all

lemma char_classes_disjoint:
  "\<not> (isBulletGlyph c \<and> isDigit c)" "\<not> (isBulletGlyph c \<and> isLetter c)"
  "\<not> (isDigit c \<and> isLetter c)"
  by (simp_all add: isBulletGlyph_def isDigit_def isLetter_def) arith+

lemma tests_exclusive:
  "test_bullet t \<Longrightarrow> \<not> test_numbered t" "test_bullet t \<Longrightarrow> \<not> test_lettered t"
  "test_numbered t \<Longrightarrow> \<not> test_lettered t"
  using test_bullet_hd[of t] test_numbered_hd[of t] test_lettered_hd[of t]
    char_classes_disjoint by fastforce+

lemma detectMarker_cases:
  "(detectMarker ptext = (Some BULLET_DISC_CIRCLE_SQUARE, n)) =
     (test_bullet (trimStart ptext) \<and> n = matchLength (match_bullet (trimStart ptext)))"
  "(detectMarker ptext = (Some NUMBERED_DECIMAL_NESTED, n)) =
     (test_numbered (trimStart ptext) \<and> n = matchLength (match_numbered (trimStart ptext)))"
  "(detectMarker ptext = (Some NUMBERED_UPPERALPHA_ALPHA_ROMAN, n)) =
     (test_lettered (trimStart ptext) \<and> n = matchLength (match_lettered (trimStart ptext)))"
  "(fst (detectMarker ptext) = None) =
     (\<not> test_bullet (trimStart ptext) \<and> \<not> test_numbered (trimStart ptext) \<and>
      \<not> test_lettered (trimStart ptext))"
  using tests_exclusive[of "trimStart ptext"] by (auto simp: detectMarker_def Let_def)

lemma no_marker_iff:
  "(\<forall>n. \<not> bullet_marker t n \<and> \<not> decimal_marker t n \<and> \<not> alpha_marker t n) =
   (\<not> test_bullet t \<and> \<not> test_numbered t \<and> \<not> test_lettered t)"
  by (auto simp: bullet_marker_iff decimal_marker_iff alpha_marker_iff)

lemma detectMarker_examples:
  "detectMarker (js ''1. First item'' @ [10]) = (Some NUMBERED_DECIMAL_NESTED, 3)"
  "detectMarker (js ''Not a list'' @ [10]) = (None, 0)"
  by (simp_all add: detectMarker_def js_def trimStart_def isWhiteSpace_def isBulletGlyph_def
      test_numbered_def match_numbered_def isDigit_def isDotOrParen_def matchLength_def isLetter_def)

text \<open>
  Claim C7.  The list detector classifies the text of a paragraph, trimmed of leading
  whitespace, against three marker grammars: a bullet glyph (\<open>-\<close>, \<open>*\<close> or the bullet
  character) followed by whitespace gives the disc-bullet preset, one or more digits
  followed by \<open>.\<close> or \<open>)\<close> and whitespace gives the decimal preset, one letter followed
  by \<open>.\<close> or \<open>)\<close> and whitespace gives the alphabetic preset; a text matching none of
  them has no preset.  The marker length counts the marker and all the whitespace after
  it.  The text \<open>1. First item\<close> with its newline has the decimal preset and marker
  length 3; \<open>Not a list\<close> with its newline has no preset.
\<close>

theorem detectMarker_grammars:
  "(detectMarker ptext = (Some BULLET_DISC_CIRCLE_SQUARE, n)) = bullet_marker (trimStart ptext) n \<and>
   (detectMarker ptext = (Some NUMBERED_DECIMAL_NESTED, n)) = decimal_marker (trimStart ptext) n \<and>
   (detectMarker ptext = (Some NUMBERED_UPPERALPHA_ALPHA_ROMAN, n)) = alpha_marker (trimStart ptext) n \<and>
   (fst (detectMarker ptext) = None) =
     (\<forall>k. \<not> bullet_marker (trimStart ptext) k \<and> \<not> decimal_marker (trimStart ptext) k \<and>
          \<not> alpha_marker (trimStart ptext) k) \<and>
   detectMarker (js ''1. First item'' @ [10]) = (Some NUMBERED_DECIMAL_NESTED, 3) \<and>
   detectMarker (js ''Not a list'' @ [10]) = (None, 0)"
proof (intro conjI)
  show "(detectMarker ptext = (Some BULLET_DISC_CIRCLE_SQUARE, n)) = bullet_marker (trimStart ptext) n"
    by (simp only: detectMarker_cases bullet_marker_iff)
  show "(detectMarker ptext = (Some NUMBERED_DECIMAL_NESTED, n)) = decimal_marker (trimStart ptext) n"
    by (simp only: detectMarker_cases decimal_marker_iff)
  show "(detectMarker ptext = (Some NUMBERED_UPPERALPHA_ALPHA_ROMAN, n)) =
      alpha_marker (trimStart ptext) n"
    by (simp only: detectMarker_cases alpha_marker_iff)
  show "(fst (detectMarker ptext) = None) =
     (\<forall>k. \<not> bullet_marker (trimStart ptext) k \<and> \<not> decimal_marker (trimStart ptext) k \<and>
          \<not> alpha_marker (trimStart ptext) k)"
    by (simp only: detectMarker_cases no_marker_iff)
qed (rule detectMarker_examples)+

theorem detectMarker_grammars_witness:
  "decimal_marker (trimStart (js ''1. First item'' @ [10])) 3 \<and>
   \<not> alpha_marker (trimStart (js ''Not a list'' @ [10])) 2"
  using detectMarker_grammars[of "js ''1. First item'' @ [10]" 3]
    detectMarker_grammars[of "js ''Not a list'' @ [10]" 2]
  by (simp add: detectMarker_examples)


subsection \<open>Requests that are not sent\<close>

text \<open>
  Claim C8.  A text-style or paragraph-style request built from options that define no
  field is no request at all (\<open>null\<close>); inserting the empty string returns the empty
  response and leaves the remote side as it is, with no batch submitted; and so does
  \<open>executeBatchUpdate\<close> on a missing or an empty request list.
\<close>

theorem no_op_elision:
  "buildUpdateTextStyleRequest hexToRgbColor startIndex endIndex noTextStyle = Inr None \<and>
   buildUpdateParagraphStyleRequest startIndex endIndex noParagraphStyle = None \<and>
   insertText batchUpdate [] index w = (Inr emptyResponse, w) \<and>
   executeBatchUpdate batchUpdate None w = (Inr emptyResponse, w) \<and>
   executeBatchUpdate batchUpdate (Some []) w = (Inr emptyResponse, w)"
  by (simp add: buildUpdateTextStyleRequest_def buildUpdateParagraphStyleRequest_def
      noTextStyle_def noParagraphStyle_def convertColor_def textFields_def paragraphFields_def
      insertText_def executeBatchUpdate_def)

theorem no_op_elision_witness:
  "buildUpdateTextStyleRequest noColor 1 5 noTextStyle = Inr None \<and>
   buildUpdateParagraphStyleRequest 1 5 noParagraphStyle = None \<and>
   insertText acceptAll [] 1 (worldWith []) = (Inr emptyResponse, worldWith []) \<and>
   executeBatchUpdate acceptAll None (worldWith []) = (Inr emptyResponse, worldWith []) \<and>
   executeBatchUpdate acceptAll (Some []) (worldWith []) = (Inr emptyResponse, worldWith [])"
  using no_op_elision[of noColor 1 5 acceptAll 1 "worldWith []"] by simp

lemma textFields_empty_iff: "textFields style = [] \<longleftrightarrow>
   bold style = None \<and> italic style = None \<and> underline style = None \<and>
   strikethrough style = None \<and> fontSize style = None \<and> fontFamily style = None \<and>
   foregroundColor style = None \<and> backgroundColor style = None \<and> linkUrl style = None"
  by (simp add: textFields_def)

text \<open>
  Claim C10.  \<open>executeBatchUpdate\<close> neither splits nor rejects a batch: for a request
  list that is not empty, whatever its length, the service is applied once, to the whole
  list and the document as it is, and the outcome is that of this one application: its
  response and its new document when it accepts, its failure, translated, and the
  document unchanged when it refuses.  The whole list is logged as one batch submitted;
  a list of more than 50 requests adds one warning and is submitted all the same.
\<close>

theorem executeBatchUpdate_one_call:
  "rs \<noteq> [] \<Longrightarrow>
   submitted (snd (executeBatchUpdate batchUpdate (Some rs) w)) = submitted w @ [rs] \<and>
   warnings (snd (executeBatchUpdate batchUpdate (Some rs) w)) =
     warnings w + (if length rs > 50 then 1 else 0) \<and>
   (batchUpdate rs (document w) = Inr (response, doc) \<longrightarrow>
      fst (executeBatchUpdate batchUpdate (Some rs) w) = Inr response \<and>
      document (snd (executeBatchUpdate batchUpdate (Some rs) w)) = doc) \<and>
   (batchUpdate rs (document w) = Inl e \<longrightarrow>
      fst (executeBatchUpdate batchUpdate (Some rs) w) = Inl (translateBatchError e) \<and>
      document (snd (executeBatchUpdate batchUpdate (Some rs) w)) = document w)"
  by (simp add: executeBatchUpdate_def MAX_BATCH_UPDATE_REQUESTS_def Let_def
      split: sum.splits prod.splits)

theorem executeBatchUpdate_one_call_witness:
  "executeBatchUpdate countRequests (Some (replicate 51 (InsertText 1 [97]))) (worldWith []) =
     (Inr (BatchUpdateResponse (Some 51)),
      \<lparr>document = Inr (Some []), submitted = [replicate 51 (InsertText 1 [97])],
       warnings = 1\<rparr>) \<and>
   executeBatchUpdate refuseAll (Some (replicate 51 (InsertText 1 [97])))
       (worldWith [tableAt 4]) =
     (Inl (UserError ''Permission denied for document''),
      \<lparr>document = Inr (Some [tableAt 4]), submitted = [replicate 51 (InsertText 1 [97])],
       warnings = 1\<rparr>)"
proof -
  have a: "countRequests (replicate 51 (InsertText 1 [97])) (document (worldWith [])) =
      Inr (BatchUpdateResponse (Some 51), Inr (Some []))"
    by (simp add: countRequests_def)
  have b: "refuseAll (replicate 51 (InsertText 1 [97])) (document (worldWith [tableAt 4])) =
      Inl (ApiError 403 [])"
    by (simp add: refuseAll_def)
  have t: "translateBatchError (ApiError 403 []) = UserError ''Permission denied for document''"
    by (simp add: translateBatchError_def)
  have ne: "replicate 51 (InsertText 1 [97]) \<noteq> []" by simp
  from executeBatchUpdate_one_call[OF ne, of countRequests "worldWith []"
      "BatchUpdateResponse (Some 51)" "Inr (Some [])"]
    executeBatchUpdate_one_call[OF ne, of refuseAll "worldWith [tableAt 4]" _ _
      "ApiError 403 []"]
    a b t
  show ?thesis
    by (simp add: prod_eq_iff worldWith_def world.equality)
qed


subsection \<open>Table cells\<close>

lemma dropWhile_keeps_others: "(\<exists>x\<in>set (dropWhile P xs). \<not> P x) \<longleftrightarrow> (\<exists>x\<in>set xs. \<not> P x)"
  by (induction xs) auto

lemma trim_nonempty_iff: "trim c \<noteq> [] \<longleftrightarrow> (\<exists>ch\<in>set c. \<not> isWhiteSpace ch)"
  by (simp add: trim_def dropWhile_eq_Nil_conv dropWhile_keeps_others)

lemma hasVisibleText_iff:
  "hasVisibleText pe \<longleftrightarrow> (\<exists>c. pe_content pe = Some c \<and> (\<exists>ch\<in>set c. \<not> isWhiteSpace ch))"
  by (cases "pe_content pe") (auto simp: hasVisibleText_def trim_nonempty_iff)

lemma paragraphHasText_iff:
  "paragraphHasText ce \<longleftrightarrow>
   (\<exists>pes. se_paragraph ce = Some (Paragraph (Some pes)) \<and>
      (\<exists>pe\<in>set pes. \<exists>c. pe_content pe = Some c \<and> (\<exists>ch\<in>set c. \<not> isWhiteSpace ch)))"
  by (auto simp: paragraphHasText_def list_ex_iff hasVisibleText_iff
      split: option.splits paragraphNode.splits)

lemma cellRangeOf_cell: 
  "cellStartIndex (cellRangeOf cell) = cell_startIndex cell"
  "cellEndIndex (cellRangeOf cell) = cell_endIndex cell"
  by (simp_all add: cellRangeOf_def split: option.splits list.splits)

lemma cellRangeOf_no_content:
  "cell_content cell = None \<or> cell_content cell = Some [] \<Longrightarrow>
   contentStartIndex (cellRangeOf cell) = cell_startIndex cell \<and>
   contentEndIndex (cellRangeOf cell) = cell_endIndex cell \<and> \<not> hasContent (cellRangeOf cell)"
  by (auto simp: cellRangeOf_def)

lemma cellRangeOf_with_content:
  assumes "cell_content cell = Some content" "content \<noteq> []"
  shows "contentStartIndex (cellRangeOf cell) =
           (case se_startIndex (hd content) of Some s \<Rightarrow> s | None \<Rightarrow> cell_startIndex cell)"
    and "contentEndIndex (cellRangeOf cell) =
           (case se_endIndex (last content) of Some e \<Rightarrow> e | None \<Rightarrow> cell_endIndex cell)"
    and "hasContent (cellRangeOf cell) =
           (\<exists>ce\<in>set content. \<exists>pes. se_paragraph ce = Some (Paragraph (Some pes)) \<and>
              (\<exists>pe\<in>set pes. \<exists>c. pe_content pe = Some c \<and> (\<exists>ch\<in>set c. \<not> isWhiteSpace ch)))"
proof -
  from assms obtain f others where c: "content = f # others" by (cases content) auto
  show "contentStartIndex (cellRangeOf cell) =
           (case se_startIndex (hd content) of Some s \<Rightarrow> s | None \<Rightarrow> cell_startIndex cell)"
    using assms(1) by (simp add: cellRangeOf_def c)
  show "contentEndIndex (cellRangeOf cell) =
           (case se_endIndex (last content) of Some e \<Rightarrow> e | None \<Rightarrow> cell_endIndex cell)"
    using assms(1) by (simp add: cellRangeOf_def c)
  have "hasContent (cellRangeOf cell) = list_ex paragraphHasText content"
    using assms(1) by (simp add: cellRangeOf_def c)
  then show "hasContent (cellRangeOf cell) =
           (\<exists>ce\<in>set content. \<exists>pes. se_paragraph ce = Some (Paragraph (Some pes)) \<and>
              (\<exists>pe\<in>set pes. \<exists>c. pe_content pe = Some c \<and> (\<exists>ch\<in>set c. \<not> isWhiteSpace ch)))"
    by (simp only: list_ex_iff) (rule bex_cong[OF refl], rule paragraphHasText_iff)
qed

lemma getTableCellRange_content:
  "document w = Inr (Some content) \<Longrightarrow>
   getTableCellRange anchor row col w = cellRangeIn content anchor row col"
  by (simp add: getTableCellRange_def)

lemma cellRangeIn_found:
  "cellRangeIn content anchor row col = Inr (Some cr) \<Longrightarrow>
   \<exists>element t rows cells. find (isTargetTable anchor) content = Some element \<and>
      se_table element = Some t \<and> tableRows t = Some rows \<and> 0 \<le> row \<and>
      row < int (length rows) \<and> tableCells (rows ! nat row) = Some cells \<and> 0 \<le> col \<and>
      col < int (length cells) \<and> cr = cellRangeOf (cells ! nat col)"
  by (auto simp: cellRangeIn_def split: option.splits if_splits)

lemma cellRangeIn_no_table:
  "find (isTargetTable anchor) content = None \<Longrightarrow> cellRangeIn content anchor row col = Inr None"
  by (simp add: cellRangeIn_def)

lemma cellRangeIn_row_out:
  "find (isTargetTable anchor) content = Some element \<Longrightarrow> se_table element = Some t \<Longrightarrow>
   tableRows t = Some rows \<Longrightarrow> int (length rows) \<le> row \<Longrightarrow>
   cellRangeIn content anchor row col = Inr None"
  by (simp add: cellRangeIn_def)

lemma cellRangeIn_col_out:
  "find (isTargetTable anchor) content = Some element \<Longrightarrow> se_table element = Some t \<Longrightarrow>
   tableRows t = Some rows \<Longrightarrow> 0 \<le> row \<Longrightarrow> row < int (length rows) \<Longrightarrow>
   tableCells (rows ! nat row) = Some cells \<Longrightarrow> int (length cells) \<le> col \<Longrightarrow>
   cellRangeIn content anchor row col = Inr None"
  by (simp add: cellRangeIn_def)

lemma cellRangeIn_in_range:
  "find (isTargetTable anchor) content = Some element \<Longrightarrow> se_table element = Some t \<Longrightarrow>
   tableRows t = Some rows \<Longrightarrow> 0 \<le> row \<Longrightarrow> row < int (length rows) \<Longrightarrow>
   tableCells (rows ! nat row) = Some cells \<Longrightarrow> 0 \<le> col \<Longrightarrow> col < int (length cells) \<Longrightarrow>
   cellRangeIn content anchor row col = Inr (Some (cellRangeOf (cells ! nat col)))"
  by (simp add: cellRangeIn_def)

lemma isTargetTable_iff:
  "isTargetTable anchor element \<longleftrightarrow>
   (\<exists>t s. se_table element = Some t \<and> se_startIndex element = Some s \<and>
      anchor - 10 \<le> s \<and> s \<le> anchor + 10)"
  by (auto simp: isTargetTable_def split: option.splits)

lemma first_target_table:
  "find (isTargetTable anchor) content = Some element \<longleftrightarrow>
   (\<exists>i<length content. content ! i = element \<and> isTargetTable anchor element \<and>
      (\<forall>j<i. \<not> isTargetTable anchor (content ! j)))"
  by (auto simp: find_Some_iff)

lemma findTableAtIndex_fallback:
  "document w = Inr (Some content) \<Longrightarrow> find (isTableNear anchor) content = None \<Longrightarrow>
   find (isTableAfter anchor) content = Some element \<Longrightarrow>
   findTableAtIndex anchor w = Inr (tableInfo element)"
  by (simp add: findTableAtIndex_def)


text \<open>
  Claim C5, amended.  The cell lookup of \<open>getTableCellRange\<close> takes the first element
  of the body, in document order, that is a table whose start index is within 10 of the
  anchor; when there is none the lookup gives \<open>null\<close>, also when a table starts after
  the anchor.  In the table found, a row index at or beyond the number of rows, or a
  column index at or beyond the number of cells of the row, gives \<open>null\<close>, and
  indices in range give the range of that very cell.  The fallback to the first table
  that starts at or after the anchor is what \<open>findTableAtIndex\<close> does.
\<close>

theorem cellRangeIn_lookup:
  "(document w = Inr (Some content) \<longrightarrow>
      getTableCellRange anchor row col w = cellRangeIn content anchor row col) \<and>
   (find (isTargetTable anchor) content = Some element) =
     (\<exists>i<length content. content ! i = element \<and> isTargetTable anchor element \<and>
        (\<forall>j<i. \<not> isTargetTable anchor (content ! j))) \<and>
   isTargetTable anchor element =
     (\<exists>t s. se_table element = Some t \<and> se_startIndex element = Some s \<and>
        anchor - 10 \<le> s \<and> s \<le> anchor + 10) \<and>
   (find (isTargetTable anchor) content = None \<longrightarrow>
      cellRangeIn content anchor row col = Inr None) \<and>
   (find (isTargetTable anchor) content = Some element \<and> se_table element = Some t \<and>
    tableRows t = Some rows \<longrightarrow>
      (int (length rows) \<le> row \<longrightarrow> cellRangeIn content anchor row col = Inr None) \<and>
      (0 \<le> row \<and> row < int (length rows) \<and> tableCells (rows ! nat row) = Some cells \<longrightarrow>
         (int (length cells) \<le> col \<longrightarrow> cellRangeIn content anchor row col = Inr None) \<and>
         (0 \<le> col \<and> col < int (length cells) \<longrightarrow>
            cellRangeIn content anchor row col = Inr (Some (cellRangeOf (cells ! nat col)))))) \<and>
   (document w = Inr (Some content) \<and> find (isTableNear anchor) content = None \<and>
    find (isTableAfter anchor) content = Some element \<longrightarrow>
      findTableAtIndex anchor w = Inr (tableInfo element))"
  using getTableCellRange_content[of w content anchor row col]
    first_target_table[of anchor content element] isTargetTable_iff[of anchor element]
    cellRangeIn_no_table[of anchor content row col]
    cellRangeIn_row_out[of anchor content element t rows row col]
    cellRangeIn_col_out[of anchor content element t rows row cells col]
    cellRangeIn_in_range[of anchor content element t rows row cells col]
    findTableAtIndex_fallback[of w content anchor element]
  by blast

lemma tableAt_lookup:
  "find (isTargetTable 6) [tableAt 4] = Some (tableAt 4)"
  "se_table (tableAt 4) =
     Some (Table (Some [TableRow (Some [TableCell 6 9 (Some [paragraphAt 7 [97, 10]])])]))"
  by (simp_all add: tableAt_def isTargetTable_def)

theorem cellRangeIn_lookup_witness:
  "cellRangeIn [tableAt 4] 6 0 0 =
     Inr (Some \<lparr>cellStartIndex = 6, cellEndIndex = 9, contentStartIndex = 7,
                contentEndIndex = 9, hasContent = True\<rparr>) \<and>
   cellRangeIn [tableAt 4] 6 5 0 = Inr None \<and>
   cellRangeIn [tableAt 4] 6 0 3 = Inr None"
  using cellRangeIn_lookup[where anchor = 6 and content = "[tableAt 4]" and element = "tableAt 4"
      and t = "Table (Some [TableRow (Some [TableCell 6 9 (Some [paragraphAt 7 [97, 10]])])])"
      and rows = "[TableRow (Some [TableCell 6 9 (Some [paragraphAt 7 [97, 10]])])]"
      and cells = "[TableCell 6 9 (Some [paragraphAt 7 [97, 10]])]" and row = 5 and col = 0]
    cellRangeIn_lookup[where anchor = 6 and content = "[tableAt 4]" and element = "tableAt 4"
      and t = "Table (Some [TableRow (Some [TableCell 6 9 (Some [paragraphAt 7 [97, 10]])])])"
      and rows = "[TableRow (Some [TableCell 6 9 (Some [paragraphAt 7 [97, 10]])])]"
      and cells = "[TableCell 6 9 (Some [paragraphAt 7 [97, 10]])]" and row = 0 and col = 0]
    cellRangeIn_lookup[where anchor = 6 and content = "[tableAt 4]" and element = "tableAt 4"
      and t = "Table (Some [TableRow (Some [TableCell 6 9 (Some [paragraphAt 7 [97, 10]])])])"
      and rows = "[TableRow (Some [TableCell 6 9 (Some [paragraphAt 7 [97, 10]])])]"
      and cells = "[TableCell 6 9 (Some [paragraphAt 7 [97, 10]])]" and row = 0 and col = 3]
  by (simp add: tableAt_lookup cellRangeOf_def paragraphAt_def paragraphHasText_def
      hasVisibleText_def trim_def isWhiteSpace_def del: find.simps)

theorem cellRangeIn_lookup_counterexample:
  "cellRangeIn [tableAt 100] 50 0 0 = Inr None \<and>
   find (isTableAfter 50) [tableAt 100] = Some (tableAt 100) \<and>
   findTableAtIndex 50 (worldWith [tableAt 100]) = Inr (tableInfo (tableAt 100))"
  by (simp add: cellRangeIn_def findTableAtIndex_def worldWith_def tableAt_def isTargetTable_def
      isTableAfter_def isTableNear_def)

text \<open>
  Claim C6, amended.  A successful lookup returns the range computed from the cell
  addressed.  It holds the full range of the cell; a content range that runs from the
  start of the first content element of the cell to the end of its last content element
  (the range of the cell itself when the cell has no content, or the element has no
  index), so that the trailing newline of the cell lies inside the content range; and
  the flag \<open>hasContent\<close>, which is true if and only if some text run of a paragraph
  in the content list of the cell has a character that is not whitespace.
\<close>

theorem cellRangeOf_ranges:
  "(document w = Inr (Some content) \<longrightarrow>
      getTableCellRange anchor row col w = cellRangeIn content anchor row col) \<and>
   (cellRangeIn content anchor row col = Inr (Some cr) \<longrightarrow>
      (\<exists>element t rows cells. find (isTargetTable anchor) content = Some element \<and>
         se_table element = Some t \<and> tableRows t = Some rows \<and> 0 \<le> row \<and>
         row < int (length rows) \<and> tableCells (rows ! nat row) = Some cells \<and> 0 \<le> col \<and>
         col < int (length cells) \<and> cr = cellRangeOf (cells ! nat col))) \<and>
   cellStartIndex (cellRangeOf cell) = cell_startIndex cell \<and>
   cellEndIndex (cellRangeOf cell) = cell_endIndex cell \<and>
   (cell_content cell = None \<or> cell_content cell = Some [] \<longrightarrow>
      contentStartIndex (cellRangeOf cell) = cell_startIndex cell \<and>
      contentEndIndex (cellRangeOf cell) = cell_endIndex cell \<and>
      \<not> hasContent (cellRangeOf cell)) \<and>
   (cell_content cell = Some cellContent \<and> cellContent \<noteq> [] \<longrightarrow>
      contentStartIndex (cellRangeOf cell) =
        (case se_startIndex (hd cellContent) of Some s \<Rightarrow> s | None \<Rightarrow> cell_startIndex cell) \<and>
      contentEndIndex (cellRangeOf cell) =
        (case se_endIndex (last cellContent) of Some e \<Rightarrow> e | None \<Rightarrow> cell_endIndex cell) \<and>
      hasContent (cellRangeOf cell) =
        (\<exists>ce\<in>set cellContent. \<exists>pes. se_paragraph ce = Some (Paragraph (Some pes)) \<and>
           (\<exists>pe\<in>set pes. \<exists>c. pe_content pe = Some c \<and> (\<exists>ch\<in>set c. \<not> isWhiteSpace ch))))"
  using getTableCellRange_content[of w content anchor row col]
    cellRangeIn_found[of content anchor row col cr] cellRangeOf_cell[of cell]
    cellRangeOf_no_content[of cell] cellRangeOf_with_content[of cell cellContent]
  by blast

theorem cellRangeOf_ranges_witness:
  "contentStartIndex (cellRangeOf (TableCell 6 9 (Some [paragraphAt 7 [97, 10]]))) = 7 \<and>
   contentEndIndex (cellRangeOf (TableCell 6 9 (Some [paragraphAt 7 [97, 10]]))) = 9 \<and>
   hasContent (cellRangeOf (TableCell 6 9 (Some [paragraphAt 7 [97, 10]]))) \<and>
   \<not> hasContent (cellRangeOf (TableCell 6 9 (Some [paragraphAt 7 [32, 10]]))) \<and>
   contentEndIndex (cellRangeOf (TableCell 6 9 None)) = 9"
  using cellRangeOf_ranges[where cell = "TableCell 6 9 (Some [paragraphAt 7 [97, 10]])"
      and cellContent = "[paragraphAt 7 [97, 10]]"]
    cellRangeOf_ranges[where cell = "TableCell 6 9 (Some [paragraphAt 7 [32, 10]])"
      and cellContent = "[paragraphAt 7 [32, 10]]"]
    cellRangeOf_ranges[where cell = "TableCell 6 9 None"]
  by (simp add: paragraphAt_def isWhiteSpace_def cellRangeIn_def)

theorem cellRangeOf_ranges_counterexample:
  "cellRangeIn [tableAt 4] 4 0 0 =
     Inr (Some \<lparr>cellStartIndex = 6, cellEndIndex = 9, contentStartIndex = 7,
                contentEndIndex = 9, hasContent = True\<rparr>) \<and>
   contentEndIndex \<lparr>cellStartIndex = 6, cellEndIndex = 9, contentStartIndex = 7,
                contentEndIndex = 9, hasContent = True\<rparr> \<noteq>
   cellEndIndex \<lparr>cellStartIndex = 6, cellEndIndex = 9, contentStartIndex = 7,
                contentEndIndex = 9, hasContent = True\<rparr> - 1"
  by (simp add: cellRangeIn_def tableAt_def isTargetTable_def cellRangeOf_def paragraphAt_def
      paragraphHasText_def hasVisibleText_def trim_def isWhiteSpace_def)

lemma executeBatchUpdate_submitted:
  "submitted (snd (executeBatchUpdate batchUpdate (Some rs) w)) =
     submitted w @ (if rs = [] then [] else [rs])"
  by (simp add: executeBatchUpdate_def Let_def split: sum.splits prod.splits)

lemma contentRequests_no_style: "list_all (\<lambda>r. \<not> isStyleRequest r) (contentRequests cr tc)"
  by (simp add: contentRequests_def Let_def split: option.splits)

lemma editTableCell_None:
  "snd (editTableCell batchUpdate hexToRgbColor a r c None ts ps w) = w"
  "getTableCellRange a r c w = Inr (Some cellRange) \<Longrightarrow>
   fst (editTableCell batchUpdate hexToRgbColor a r c None ts ps w) = Inr (EditResult True)"
  by (auto simp: editTableCell_def contentRequests_def Let_def
      split: sum.splits option.splits prod.splits)

lemma editTableCell_empty_text:
  "\<exists>bs. submitted (snd (editTableCell batchUpdate hexToRgbColor a r c (Some []) ts ps w)) =
      submitted w @ bs \<and> list_all (list_all (\<lambda>r. \<not> isStyleRequest r)) bs"
proof (cases "getTableCellRange a r c w")
  case (Inl e)
  then show ?thesis by (simp add: editTableCell_def)
next
  case (Inr found)
  show ?thesis
  proof (cases found)
    case None
    with Inr show ?thesis by (simp add: editTableCell_def)
  next
    case (Some cr)
    let ?rs = "contentRequests cr (Some [])"
    have "submitted (snd (editTableCell batchUpdate hexToRgbColor a r c (Some []) ts ps w)) =
        submitted w @ (if ?rs = [] then [] else [?rs])"
      using Inr Some executeBatchUpdate_submitted[of batchUpdate ?rs w]
      by (auto simp: editTableCell_def Let_def split: sum.splits prod.splits)
    moreover have "list_all (list_all (\<lambda>r. \<not> isStyleRequest r)) (if ?rs = [] then [] else [?rs])"
      using contentRequests_no_style[of cr "Some []"] by simp
    ultimately show ?thesis by blast
  qed
qed

text \<open>
  Claim C9, amended.  A call of \<open>editTableCell\<close> without a text content leaves
  the remote side as it is, with no batch submitted, whatever styles are given; when the
  cell is found the call returns success.  Without a text content, or with the empty
  string, no batch that is submitted holds a style request: styles are applied only
  with a text content that is not empty.
\<close>

theorem editTableCell_without_text:
  "snd (editTableCell batchUpdate hexToRgbColor a r c None ts ps w) = w \<and>
   (getTableCellRange a r c w = Inr (Some cellRange) \<longrightarrow>
      fst (editTableCell batchUpdate hexToRgbColor a r c None ts ps w) = Inr (EditResult True)) \<and>
   (textContent = None \<or> textContent = Some [] \<longrightarrow>
      (\<exists>bs. submitted (snd (editTableCell batchUpdate hexToRgbColor a r c textContent ts ps w)) =
          submitted w @ bs \<and> list_all (list_all (\<lambda>r. \<not> isStyleRequest r)) bs))"
proof (intro conjI impI)
  show "snd (editTableCell batchUpdate hexToRgbColor a r c None ts ps w) = w"
    by (rule editTableCell_None)
  show "fst (editTableCell batchUpdate hexToRgbColor a r c None ts ps w) = Inr (EditResult True)"
    if "getTableCellRange a r c w = Inr (Some cellRange)"
    using that by (rule editTableCell_None)
  show "\<exists>bs. submitted (snd (editTableCell batchUpdate hexToRgbColor a r c textContent ts ps w)) =
          submitted w @ bs \<and> list_all (list_all (\<lambda>r. \<not> isStyleRequest r)) bs"
    if "textContent = None \<or> textContent = Some []"
    using that editTableCell_None(1)[of batchUpdate hexToRgbColor a r c ts ps w]
      editTableCell_empty_text[of batchUpdate hexToRgbColor a r c ts ps w]
    by auto
qed

lemma tableAt_cell_found:
  "getTableCellRange 4 0 0 (worldWith [tableAt 4]) =
     Inr (Some \<lparr>cellStartIndex = 6, cellEndIndex = 9, contentStartIndex = 7,
                contentEndIndex = 9, hasContent = True\<rparr>)"
  by (simp add: getTableCellRange_def worldWith_def cellRangeIn_def tableAt_def isTargetTable_def
      cellRangeOf_def paragraphAt_def paragraphHasText_def hasVisibleText_def trim_def
      isWhiteSpace_def)

theorem editTableCell_without_text_witness:
  "editTableCell acceptAll noColor 4 0 0 None (Some boldStyle) None (worldWith [tableAt 4]) =
     (Inr (EditResult True), worldWith [tableAt 4])"
  using editTableCell_without_text[where batchUpdate = acceptAll and hexToRgbColor = noColor
      and a = 4 and r = 0 and c = 0 and ts = "Some boldStyle" and ps = None
      and w = "worldWith [tableAt 4]" and textContent = None
      and cellRange = "\<lparr>cellStartIndex = 6, cellEndIndex = 9, contentStartIndex = 7,
                contentEndIndex = 9, hasContent = True\<rparr>"]
    tableAt_cell_found
  by (simp add: prod_eq_iff)

theorem editTableCell_without_text_counterexample:
  "fst (editTableCell acceptAll noColor 4 0 0 None (Some boldStyle) None (worldWith [])) =
     Inl (UserError ''Could not find cell'')"
  by (simp add: editTableCell_def getTableCellRange_def worldWith_def cellRangeIn_def)

subsection \<open>Flattening\<close>

lemma collectFromElements_step:
  "collectFromElements (pe # pes) acc =
     collectFromElements pes
       (fst acc @ concat (map seg_text (runSegment pe)), snd acc @ runSegment pe)"
  by (cases acc) (simp add: runSegment_def split: option.splits)

lemma collectFromElements_acc:
  "collectFromElements pes acc =
     (fst acc @ concat (map seg_text (concat (map runSegment pes))),
      snd acc @ concat (map runSegment pes))"
proof (induction pes arbitrary: acc)
  case Nil
  show ?case by simp
next
  case (Cons pe pes)
  show ?case
    by (simp only: collectFromElements_step Cons.IH) simp
qed

lemma collect_acc:
  "collectTextFromContent content acc =
     (fst acc @ concat (map seg_text (treeSegments content)), snd acc @ treeSegments content)"
  "collectFromRows rows acc1 =
     (fst acc1 @ concat (map seg_text (rowSegments rows)), snd acc1 @ rowSegments rows)"
  "collectFromCells cells acc2 =
     (fst acc2 @ concat (map seg_text (cellSegments cells)), snd acc2 @ cellSegments cells)"
proof (induction content acc and rows acc1 and cells acc2
    rule: collectTextFromContent_collectFromRows_collectFromCells.induct)
  case (1 acc)
  show ?case by simp
next
  case (2 s e p t els acc)
  show ?case
    using 2
    by (simp add: collectFromElements_acc Let_def
        split: option.splits paragraphNode.splits tableNode.splits)
next
  case (3 acc)
  show ?case by simp
next
  case (4 cs rows acc)
  then show ?case by (simp split: option.splits)
next
  case (5 acc)
  show ?case by simp
next
  case (6 s e c cells acc)
  then show ?case by (simp split: option.splits)
qed

lemma collectedSegments_eq: "collectedSegments content = treeSegments content"
  by (simp add: collectedSegments_def collect_acc)

lemma fullText_eq:
  "fst (collectTextFromContent content ([], [])) = concat (map seg_text (treeSegments content))"
  by (simp add: collect_acc)


lemma segmentsInOrder_le: "segmentsInOrder lo hi segs \<Longrightarrow> lo \<le> hi"
  by (induction segs arbitrary: lo) (auto, force)

lemma segmentsInOrder_append:
  "segmentsInOrder lo mid xs \<Longrightarrow> segmentsInOrder mid hi ys \<Longrightarrow> segmentsInOrder lo hi (xs @ ys)"
proof (induction xs arbitrary: lo)
  case Nil
  then show ?case using segmentsInOrder_le[of mid hi ys] by (cases ys) auto
next
  case (Cons x xs)
  then show ?case by simp
qed

lemma segmentsInOrder_lower:
  "segmentsInOrder lo hi xs \<Longrightarrow> lo' \<le> lo \<Longrightarrow> segmentsInOrder lo' hi xs"
  by (cases xs) auto

lemma segmentsInOrder_upper:
  "segmentsInOrder lo hi xs \<Longrightarrow> hi \<le> hi' \<Longrightarrow> segmentsInOrder lo hi' xs"
  by (induction xs arbitrary: lo) auto

lemma runs_in_order:
  "runsInOrder lo hi pes \<Longrightarrow>
   segmentsInOrder lo hi (concat (map runSegment pes)) \<and>
   map seg_text (concat (map runSegment pes)) = filter (\<lambda>r. r \<noteq> []) (runsOfElements pes)"
proof (induction pes arbitrary: lo)
  case Nil
  then show ?case by (simp add: runsOfElements_def)
next
  case (Cons pe pes)
  from Cons.prems obtain s e where se: "pe_startIndex pe = Some s" "pe_endIndex pe = Some e"
    and b: "lo \<le> s" "s + int (length (case pe_content pe of Some c \<Rightarrow> c | None \<Rightarrow> [])) \<le> e"
    and rest: "runsInOrder e hi pes"
    by (auto split: option.splits)
  from Cons.IH[OF rest] have ih: "segmentsInOrder e hi (concat (map runSegment pes))"
    and tx: "map seg_text (concat (map runSegment pes)) = filter (\<lambda>r. r \<noteq> []) (runsOfElements pes)"
    by simp_all
  have le: "lo \<le> e" using b by linarith
  show ?case
  proof (cases "runSegment pe")
    case Nil
    then have "(case pe_content pe of Some c \<Rightarrow> c | None \<Rightarrow> []) = []"
      using se by (auto simp: runSegment_def split: option.splits if_splits)
    with Nil ih tx le show ?thesis
      by (simp add: runsOfElements_def segmentsInOrder_lower)
  next
    case (Cons seg more)
    then obtain c where c: "pe_content pe = Some c" "c \<noteq> []"
      and seg: "runSegment pe = [\<lparr>seg_text = c, seg_start = s, seg_end = e\<rparr>]"
      using se by (auto simp: runSegment_def split: option.splits if_splits)
    with ih tx b show ?thesis
      by (simp add: runsOfElements_def)
  qed
qed

lemma endOfCells_Cons: "endOfCells lo (TableCell s e c # cells) = endOfCells e cells"
  by (cases cells) (simp_all add: endOfCells_def)

lemma tree_in_order:
  "contentInOrder lo hi content \<Longrightarrow>
     segmentsInOrder lo hi (treeSegments content) \<and>
     map seg_text (treeSegments content) = filter (\<lambda>r. r \<noteq> []) (textRuns content)"
  "rowsInOrder lo1 hi1 rows \<Longrightarrow>
     segmentsInOrder lo1 hi1 (rowSegments rows) \<and>
     map seg_text (rowSegments rows) = filter (\<lambda>r. r \<noteq> []) (textRunsOfRows rows)"
  "cellsInOrder lo2 hi2 cells \<Longrightarrow>
     segmentsInOrder lo2 (endOfCells lo2 cells) (cellSegments cells) \<and>
     endOfCells lo2 cells \<le> hi2 \<and>
     map seg_text (cellSegments cells) = filter (\<lambda>r. r \<noteq> []) (textRunsOfCells cells)"
proof (induction lo hi content and lo1 hi1 rows and lo2 hi2 cells
    rule: contentInOrder_rowsInOrder_cellsInOrder.induct)
  case (1 lo hi)
  then show ?case by simp
next
  case (2 lo hi s e p t els)
  from "2.prems" obtain b where e: "e = Some b" by (cases e) auto
  define a where "a = (case s of Some a \<Rightarrow> a | None \<Rightarrow> 0)"
  define X where "X = (case p of Some (Paragraph (Some pes)) \<Rightarrow> concat (map runSegment pes) | _ \<Rightarrow> []) @
     (case t of Some (Table (Some rows)) \<Rightarrow> rowSegments rows | _ \<Rightarrow> [])"
  define T where "T = (case p of Some (Paragraph (Some pes)) \<Rightarrow> runsOfElements pes | _ \<Rightarrow> []) @
     (case t of Some (Table (Some rows)) \<Rightarrow> textRunsOfRows rows | _ \<Rightarrow> [])"
  from "2.prems" have ab: "lo \<le> a" "a \<le> b" and rest: "contentInOrder b hi els"
    unfolding e a_def by (simp_all add: Let_def)
  have ih_rest: "segmentsInOrder b hi (treeSegments els) \<and>
      map seg_text (treeSegments els) = filter (\<lambda>r. r \<noteq> []) (textRuns els)"
    by (rule "2.IH"(2)[OF e refl rest])
  have own: "segmentsInOrder a b X \<and> map seg_text X = filter (\<lambda>r. r \<noteq> []) T"
  proof (cases p)
    case None
    show ?thesis
    proof (cases t)
      case None
      with \<open>p = None\<close> ab show ?thesis by (simp add: X_def T_def)
    next
      case (Some tn)
      obtain rs where tn: "tn = Table rs" by (cases tn)
      show ?thesis
      proof (cases rs)
        case None
        with \<open>p = None\<close> Some tn ab show ?thesis by (simp add: X_def T_def)
      next
        case (Some rows)
        from "2.prems" have "rowsInOrder a b rows"
          unfolding e a_def \<open>p = None\<close> \<open>t = Some tn\<close> tn Some by (simp add: Let_def)
        from "2.IH"(1)[OF e a_def \<open>p = None\<close> \<open>t = Some tn\<close> tn Some this]
        show ?thesis using \<open>p = None\<close> \<open>t = Some tn\<close> tn Some by (simp add: X_def T_def)
      qed
    qed
  next
    case (Some pn)
    obtain pes where pn: "pn = Paragraph pes" by (cases pn)
    from "2.prems" have t: "t = None"
      and runs: "runsInOrder a b (case pes of Some xs \<Rightarrow> xs | None \<Rightarrow> [])"
      unfolding e a_def Some pn by (simp_all add: Let_def)
    show ?thesis
    proof (cases pes)
      case None
      with Some pn t ab show ?thesis by (simp add: X_def T_def)
    next
      case (Some xs)
      with runs have "runsInOrder a b xs" by simp
      from runs_in_order[OF this] show ?thesis
        using \<open>p = Some pn\<close> pn t Some by (simp add: X_def T_def)
    qed
  qed
  have "segmentsInOrder lo hi (X @ treeSegments els)"
    using own ih_rest ab(1) by (blast intro: segmentsInOrder_append segmentsInOrder_lower)
  moreover have "map seg_text (X @ treeSegments els) = filter (\<lambda>r. r \<noteq> []) (T @ textRuns els)"
    using own ih_rest by simp
  ultimately show ?case by (simp add: X_def T_def)
next
  case (3 lo hi)
  then show ?case by simp
next
  case (4 lo hi cs rows)
  show ?case
  proof (cases cs)
    case None
    with "4.prems" have "rowsInOrder lo hi rows" by simp
    from "4.IH"(1)[OF None this] show ?thesis using None by simp
  next
    case (Some cells)
    with "4.prems" have c: "cellsInOrder lo hi cells"
      and r: "rowsInOrder (endOfCells lo cells) hi rows" by simp_all
    note ihc = "4.IH"(2)[OF Some c]
    note ihr = "4.IH"(3)[OF Some r]
    have "segmentsInOrder lo hi (cellSegments cells @ rowSegments rows)"
      using ihc ihr by (blast intro: segmentsInOrder_append)
    then show ?thesis using ihc ihr Some by simp
  qed
next
  case (5 lo hi)
  then show ?case by (simp add: endOfCells_def)
next
  case (6 lo hi s e c cells)
  from "6.prems" have se: "lo \<le> s" "s \<le> e" and rest: "cellsInOrder e hi cells"
    by simp_all
  note ihr = "6.IH"(2)[OF rest]
  define X where "X = (case c of Some content \<Rightarrow> treeSegments content | None \<Rightarrow> [])"
  define T where "T = (case c of Some content \<Rightarrow> textRuns content | None \<Rightarrow> [])"
  have own: "segmentsInOrder s e X \<and> map seg_text X = filter (\<lambda>r. r \<noteq> []) T"
  proof (cases c)
    case None
    with se show ?thesis by (simp add: X_def T_def)
  next
    case (Some content)
    with "6.prems" have "contentInOrder s e content" by simp
    from "6.IH"(1)[OF Some this] show ?thesis using Some by (simp add: X_def T_def)
  qed
  have "segmentsInOrder lo (endOfCells e cells) (X @ cellSegments cells)"
    using own ihr se(1) by (blast intro: segmentsInOrder_append segmentsInOrder_lower)
  moreover have "map seg_text (X @ cellSegments cells) = filter (\<lambda>r. r \<noteq> []) (T @ textRunsOfCells cells)"
    using own ihr by simp
  ultimately show ?case using ihr by (simp add: X_def T_def endOfCells_Cons)
qed

lemma segmentsInOrder_sorted:
  "segmentsInOrder lo hi segs \<Longrightarrow>
   sorted (map seg_start segs) \<and> (\<forall>x\<in>set segs. lo \<le> seg_start x)"
proof (induction segs arbitrary: lo)
  case Nil
  show ?case by simp
next
  case (Cons seg segs)
  then have a: "lo \<le> seg_start seg" "seg_start seg \<le> seg_end seg"
    and r: "segmentsInOrder (seg_end seg) hi segs" by auto
  from Cons.IH[OF r] a show ?case by fastforce
qed

lemma concat_filter_nonempty: "concat (filter (\<lambda>r. r \<noteq> []) xs) = concat xs"
  by (induction xs) auto

lemma flatten_in_order:
  assumes "contentInOrder lo hi content"
  shows "flatten content = treeSegments content"
proof -
  have "sorted (map seg_start (treeSegments content))"
    using tree_in_order(1)[OF assms] segmentsInOrder_sorted by blast
  then show ?thesis
    by (simp add: flatten_def sortSegments_def collectedSegments_eq sort_key_id_if_sorted)
qed

text \<open>
  Claim C3.  For every tree in document order (every node with its range, the ranges of
  siblings following one another without overlap, the ranges of children within the
  range of their parent), flattening, which collects one segment for each text run that
  is not empty, depth-first through the paragraphs and through every cell of every row
  of a table, and then sorts the segments by start, gives segments whose texts are the
  non-empty text runs in document order: their concatenation is the concatenation of
  the text runs in document order, and the segments are sorted by ascending start.
\<close>

theorem flatten_round_trip:
  assumes "contentInOrder lo hi content"
  shows "concat (map seg_text (flatten content)) = concat (textRuns content) \<and>
         map seg_text (flatten content) = filter (\<lambda>r. r \<noteq> []) (textRuns content) \<and>
         sorted (map seg_start (flatten content))"
proof -
  have t: "map seg_text (treeSegments content) = filter (\<lambda>r. r \<noteq> []) (textRuns content)"
    using tree_in_order(1)[OF assms] by simp
  have "concat (map seg_text (treeSegments content)) = concat (textRuns content)"
    by (simp only: t concat_filter_nonempty)
  moreover have "sorted (map seg_start (flatten content))"
    by (simp add: flatten_def sortSegments_def)
  ultimately show ?thesis using t by (simp add: flatten_in_order[OF assms])
qed

theorem flatten_round_trip_witness:
  "concat (map seg_text (flatten exampleDocument)) = [72, 105, 10, 97, 10, 97, 97, 97, 10] \<and>
   map seg_start (flatten exampleDocument) = [1, 7, 10] \<and>
   sorted (map seg_start (flatten exampleDocument))"
proof -
  have h: "contentInOrder 0 14 exampleDocument" by code_simp
  have e1: "concat (textRuns exampleDocument) = [72, 105, 10, 97, 10, 97, 97, 97, 10]"
    by code_simp
  have e2: "map seg_start (flatten exampleDocument) = [1, 7, 10]" by code_simp
  from flatten_round_trip[OF h, THEN conjunct1] flatten_round_trip[OF h, THEN conjunct2, THEN conjunct2]
    e1 e2 show ?thesis by simp
qed


subsection \<open>Text search\<close>

lemma mapToDocument_found:
  "st \<noteq> -1 \<Longrightarrow> cur < te \<Longrightarrow> te \<le> cur + length (concat (map seg_text segs)) \<Longrightarrow>
   mapToDocument segs cur st ts te = (st, docOffset segs (te - 1 - cur) + 1)"
proof (induction segs arbitrary: cur)
  case Nil
  then show ?case by simp
next
  case (Cons seg segs)
  let ?l = "length (seg_text seg)"
  show ?case
  proof (cases "te \<le> cur + ?l")
    case True
    with Cons.prems show ?thesis by (simp add: Let_def) linarith
  next
    case False
    then have "cur + ?l < te" by simp
    moreover have "te \<le> (cur + ?l) + length (concat (map seg_text segs))"
      using Cons.prems by simp
    ultimately have "mapToDocument segs (cur + ?l) st ts te =
        (st, docOffset segs (te - 1 - (cur + ?l)) + 1)"
      using Cons.IH[of "cur + ?l"] Cons.prems(1) by blast
    moreover have "te - 1 - cur - ?l = te - 1 - (cur + ?l)" by simp
    moreover have "\<not> te - 1 - cur < ?l" using False by arith
    ultimately show ?thesis using False Cons.prems by (simp add: Let_def)
  qed
qed

lemma mapToDocument_search:
  "cur \<le> ts \<Longrightarrow> ts < te \<Longrightarrow> te \<le> cur + length (concat (map seg_text segs)) \<Longrightarrow>
   list_all (\<lambda>seg. 0 \<le> seg_start seg) segs \<Longrightarrow>
   mapToDocument segs cur (-1) ts te =
     (docOffset segs (ts - cur), docOffset segs (te - 1 - cur) + 1)"
proof (induction segs arbitrary: cur)
  case Nil
  then show ?case by simp
next
  case (Cons seg segs)
  let ?l = "length (seg_text seg)"
  have nn: "0 \<le> seg_start seg" and rest: "list_all (\<lambda>seg. 0 \<le> seg_start seg) segs"
    using Cons.prems by simp_all
  show ?case
  proof (cases "ts < cur + ?l")
    case True
    note inseg = True
    show ?thesis
    proof (cases "te \<le> cur + ?l")
      case True
      with inseg Cons.prems show ?thesis by (simp add: Let_def) linarith
    next
      case False
      have st: "seg_start seg + (int ts - int cur) \<noteq> -1" using nn Cons.prems(1) by linarith
      have "mapToDocument segs (cur + ?l) (seg_start seg + (int ts - int cur)) ts te =
          (seg_start seg + (int ts - int cur), docOffset segs (te - 1 - (cur + ?l)) + 1)"
        using mapToDocument_found[OF st, of "cur + ?l" te segs ts] False Cons.prems by simp
      moreover have "te - 1 - cur - ?l = te - 1 - (cur + ?l)" by simp
      moreover have "\<not> te - 1 - cur < ?l" using False by arith
      moreover have "ts - cur < ?l" using inseg Cons.prems(1) by arith
      moreover have "int (ts - cur) = int ts - int cur" using Cons.prems(1) by simp
      ultimately show ?thesis using False inseg Cons.prems by (simp add: Let_def) arith
    qed
  next
    case False
    then have a: "cur + ?l \<le> ts" by simp
    have "mapToDocument segs (cur + ?l) (-1) ts te =
        (docOffset segs (ts - (cur + ?l)), docOffset segs (te - 1 - (cur + ?l)) + 1)"
      using Cons.IH[OF a Cons.prems(2) _ rest] Cons.prems(3) by simp
    moreover have "te - 1 - cur - ?l = te - 1 - (cur + ?l)" "ts - cur - ?l = ts - (cur + ?l)"
      by simp_all
    moreover have "\<not> te - 1 - cur < ?l" "\<not> ts - cur < ?l" using False Cons.prems(2) by arith+
    ultimately show ?thesis using False Cons.prems by (simp add: Let_def)
  qed
qed

lemma docOffset_nonneg:
  "list_all (\<lambda>seg. 0 \<le> seg_start seg) segs \<Longrightarrow> p < length (concat (map seg_text segs)) \<Longrightarrow>
   0 \<le> docOffset segs p"
  by (induction segs arbitrary: p) auto

lemma docOffset_bounds:
  "segmentsInOrder lo hi segs \<Longrightarrow> p < length (concat (map seg_text segs)) \<Longrightarrow>
   lo \<le> docOffset segs p \<and> docOffset segs p < hi"
proof (induction segs arbitrary: lo p)
  case Nil
  then show ?case by simp
next
  case (Cons seg segs)
  then have a: "lo \<le> seg_start seg" "seg_start seg + int (length (seg_text seg)) \<le> seg_end seg"
    and r: "segmentsInOrder (seg_end seg) hi segs" by auto
  have le: "seg_end seg \<le> hi" using segmentsInOrder_le[OF r] .
  show ?case
  proof (cases "p < length (seg_text seg)")
    case True
    with a le show ?thesis by simp
  next
    case False
    then have "p - length (seg_text seg) < length (concat (map seg_text segs))"
      using Cons.prems(2) by simp
    from Cons.IH[OF r this] a False show ?thesis by simp
  qed
qed

lemma docOffset_mono:
  "segmentsInOrder lo hi segs \<Longrightarrow> p < q \<Longrightarrow> q < length (concat (map seg_text segs)) \<Longrightarrow>
   docOffset segs p < docOffset segs q"
proof (induction segs arbitrary: lo p q)
  case Nil
  then show ?case by simp
next
  case (Cons seg segs)
  then have a: "lo \<le> seg_start seg" "seg_start seg + int (length (seg_text seg)) \<le> seg_end seg"
    and r: "segmentsInOrder (seg_end seg) hi segs" by auto
  show ?case
  proof (cases "q < length (seg_text seg)")
    case True
    with Cons.prems(2) show ?thesis by simp
  next
    case False
    then have q: "q - length (seg_text seg) < length (concat (map seg_text segs))"
      using Cons.prems(3) by simp
    show ?thesis
    proof (cases "p < length (seg_text seg)")
      case True
      with docOffset_bounds[OF r q] a False show ?thesis by simp
    next
      case False
      then have "p - length (seg_text seg) < q - length (seg_text seg)"
        using Cons.prems(2) by simp
      from Cons.IH[OF r this q] False \<open>\<not> q < length (seg_text seg)\<close> show ?thesis by simp
    qed
  qed
qed

lemma find_filter: "find P xs = (case filter P xs of [] \<Rightarrow> None | x # _ \<Rightarrow> Some x)"
  by (induction xs) auto

lemma filter_upt_Cons:
  "filter P [s..<N] = p # rest \<Longrightarrow> s \<le> p \<and> p < N \<and> P p \<and> rest = filter P [Suc p..<N]"
proof (induction "N - s" arbitrary: s)
  case 0
  then show ?case by simp
next
  case (Suc d)
  then have lt: "s < N" by simp
  then have up: "[s..<N] = s # [Suc s..<N]" by (simp add: upt_conv_Cons)
  show ?case
  proof (cases "P s")
    case True
    with Suc.prems up lt show ?thesis by auto
  next
    case False
    with Suc.prems up have f: "filter P [Suc s..<N] = p # rest" by simp
    have "d = N - Suc s" using Suc.hyps(2) by simp
    from Suc.hyps(1)[OF this f] show ?thesis by simp
  qed
qed

lemma matchesFrom_Cons:
  assumes "matchesFrom text needle s = p # rest"
  shows "s \<le> p" "take (length needle) (drop p text) = needle"
    "rest = matchesFrom text needle (Suc p)" "p \<in> set (matchesFrom text needle 0)"
proof -
  note f = filter_upt_Cons[OF assms[unfolded matchesFrom_def]]
  from f show "s \<le> p" by simp
  from f show "take (length needle) (drop p text) = needle" by simp
  from f show "rest = matchesFrom text needle (Suc p)" by (simp only: matchesFrom_def)
  from f show "p \<in> set (matchesFrom text needle 0)"
    by (simp add: matchesFrom_def del: upt_Suc)
qed

lemma match_in_text:
  "needle \<noteq> [] \<Longrightarrow> take (length needle) (drop p text) = needle \<Longrightarrow>
   p + length needle \<le> length text"
proof -
  assume n: "needle \<noteq> []" and m: "take (length needle) (drop p text) = needle"
  have "length (take (length needle) (drop p text)) = length needle" using m by simp
  then have "min (length needle) (length text - p) = length needle" by simp
  then have "length needle \<le> length text - p" by linarith
  moreover have "0 < length needle" using n by simp
  ultimately show ?thesis by linarith
qed

lemma indexOf_matchesFrom:
  assumes "needle \<noteq> []"
  shows "indexOf text needle s =
           (case matchesFrom text needle s of [] \<Rightarrow> None | p # _ \<Rightarrow> Some p)"
proof (cases "s \<le> length text")
  case True
  then show ?thesis by (simp add: indexOf_def matchesFrom_def find_filter min_def)
next
  case False
  then have "min s (length text) = length text" by simp
  moreover have "take (length needle) (drop (length text) text) \<noteq> needle" using assms by auto
  moreover have "[s..<Suc (length text)] = []" using False by simp
  ultimately show ?thesis by (simp add: indexOf_def matchesFrom_def)
qed

lemma searchLoop_matches:
  assumes n: "needle \<noteq> []"
    and M: "\<And>p. p \<in> set (matchesFrom text needle 0) \<Longrightarrow>
              fst (mapToDocument segs 0 (-1) p (p + length needle)) \<noteq> -1 \<and>
              snd (mapToDocument segs 0 (-1) p (p + length needle)) \<noteq> -1"
  shows "fc < k \<Longrightarrow>
         searchLoop text segs needle k fc s =
           Some (case drop (k - Suc fc) (matchesFrom text needle s) of
                   [] \<Rightarrow> None
                 | p # _ \<Rightarrow> Some (mapToDocument segs 0 (-1) p (p + length needle)))"
proof (induction "matchesFrom text needle s" arbitrary: s fc)
  case Nil
  then have "indexOf text needle s = None" by (simp add: indexOf_matchesFrom[OF n])
  with Nil show ?case by (subst searchLoop.simps) simp
next
  case (Cons p rest)
  note ms = Cons.hyps(2)[symmetric]
  have idx: "indexOf text needle s = Some p" by (simp add: indexOf_matchesFrom[OF n] ms)
  note facts = matchesFrom_Cons[OF ms]
  show ?case
  proof (cases "fc + 1 = k")
    case True
    obtain a b where ab: "mapToDocument segs 0 (-1) p (p + length needle) = (a, b)"
      by (cases "mapToDocument segs 0 (-1) p (p + length needle)")
    with M[OF facts(4)] have "a \<noteq> -1" "b \<noteq> -1" by simp_all
    with True idx ab Cons.prems ms show ?thesis
      by (subst searchLoop.simps) simp
  next
    case False
    with Cons.prems have lt: "fc + 1 < k" by simp
    have "searchLoop text segs needle k (fc + 1) (p + 1) =
       Some (case drop (k - Suc (fc + 1)) (matchesFrom text needle (p + 1)) of
                   [] \<Rightarrow> None
                 | p # _ \<Rightarrow> Some (mapToDocument segs 0 (-1) p (p + length needle)))"
      using Cons.hyps(1)[of "p + 1" "fc + 1"] facts(3) lt by simp
    moreover have "k - Suc fc = Suc (k - Suc (fc + 1))" using lt by arith
    then have "drop (k - Suc fc) (p # rest) = drop (k - Suc (fc + 1)) rest"
      by simp
    ultimately show ?thesis using False idx Cons.prems ms facts(3)
      by (subst searchLoop.simps) simp
  qed
qed

lemma matchesFrom_member:
  "p \<in> set (matchesFrom text needle s) \<Longrightarrow> take (length needle) (drop p text) = needle"
  by (simp add: matchesFrom_def)

lemma matchesFrom_strict: "sorted_wrt (<) (matchesFrom text needle s)"
  unfolding matchesFrom_def by (rule sorted_wrt_filter) (rule sorted_wrt_upt)

lemma mapping_of_match:
  assumes "needle \<noteq> []" "list_all (\<lambda>seg. 0 \<le> seg_start seg) segs"
    and "p + length needle \<le> length (concat (map seg_text segs))"
  shows "mapToDocument segs 0 (-1) p (p + length needle) =
           (docOffset segs p, docOffset segs (p + length needle - 1) + 1)"
    and "0 \<le> docOffset segs p" and "0 \<le> docOffset segs (p + length needle - 1)"
proof -
  have pos: "0 < length needle" using assms(1) by simp
  then have lt: "p < p + length needle" by simp
  from mapToDocument_search[of 0 p "p + length needle" segs] lt assms(2,3)
  show "mapToDocument segs 0 (-1) p (p + length needle) =
           (docOffset segs p, docOffset segs (p + length needle - 1) + 1)"
    by simp
  show "0 \<le> docOffset segs p"
    using docOffset_nonneg[OF assms(2), of p] assms(3) pos by simp
  have "p + length needle - 1 < length (concat (map seg_text segs))"
    using assms(3) pos by arith
  then show "0 \<le> docOffset segs (p + length needle - 1)"
    by (rule docOffset_nonneg[OF assms(2)])
qed

lemma in_order_facts:
  assumes "contentInOrder lo hi content" "0 \<le> lo"
  shows "collectTextFromContent content ([], []) = (documentText content, flatten content)"
    and "sortSegments (flatten content) = flatten content"
    and "list_all (\<lambda>seg. 0 \<le> seg_start seg) (flatten content)"
    and "concat (map seg_text (flatten content)) = documentText content"
    and "segmentsInOrder lo hi (flatten content)"
proof -
  note f = flatten_in_order[OF assms(1)]
  note t = tree_in_order(1)[OF assms(1)]
  have tx: "concat (map seg_text (treeSegments content)) = documentText content"
    using t by (simp add: documentText_def concat_filter_nonempty)
  show "collectTextFromContent content ([], []) = (documentText content, flatten content)"
    by (simp add: collect_acc f tx)
  have srt: "sorted (map seg_start (treeSegments content))"
    and lb: "\<forall>x\<in>set (treeSegments content). lo \<le> seg_start x"
    using t segmentsInOrder_sorted by blast+
  show "sortSegments (flatten content) = flatten content"
    by (simp add: f sortSegments_def sort_key_id_if_sorted srt)
  show "list_all (\<lambda>seg. 0 \<le> seg_start seg) (flatten content)"
    using lb assms(2) by (fastforce simp: f list_all_iff)
  show "concat (map seg_text (flatten content)) = documentText content"
    by (simp add: f tx)
  show "segmentsInOrder lo hi (flatten content)" using t by (simp add: f)
qed

lemma findTextIn_result:
  assumes "contentInOrder lo hi content" "0 \<le> lo" "needle \<noteq> []" "1 \<le> k"
  shows "findTextIn content needle k =
     Some (case drop (k - 1) (matchesFrom (documentText content) needle 0) of
             [] \<Rightarrow> None
           | p # _ \<Rightarrow> Some (docOffset (flatten content) p,
                            docOffset (flatten content) (p + length needle - 1) + 1))"
proof -
  let ?text = "documentText content"
  let ?segs = "flatten content"
  note io = in_order_facts[OF assms(1,2)]
  have inside: "p + length needle \<le> length (concat (map seg_text ?segs))"
    if "p \<in> set (matchesFrom ?text needle 0)" for p
    using match_in_text[OF assms(3) matchesFrom_member[OF that]] io(4) by simp
  have M: "fst (mapToDocument ?segs 0 (-1) p (p + length needle)) \<noteq> -1 \<and>
           snd (mapToDocument ?segs 0 (-1) p (p + length needle)) \<noteq> -1"
    if "p \<in> set (matchesFrom ?text needle 0)" for p
    using mapping_of_match[OF assms(3) io(3) inside[OF that]] by simp
  have "0 < k" using assms(4) by simp
  from searchLoop_matches[of needle ?text ?segs 0 k 0, OF assms(3) M this]
  have loop: "searchLoop ?text ?segs needle k 0 0 =
      Some (case drop (k - 1) (matchesFrom ?text needle 0) of
              [] \<Rightarrow> None
            | p # _ \<Rightarrow> Some (mapToDocument ?segs 0 (-1) p (p + length needle)))"
    by simp
  have "(case drop (k - 1) (matchesFrom ?text needle 0) of
              [] \<Rightarrow> None
            | p # _ \<Rightarrow> Some (mapToDocument ?segs 0 (-1) p (p + length needle))) =
        (case drop (k - 1) (matchesFrom ?text needle 0) of
             [] \<Rightarrow> None
           | p # _ \<Rightarrow> Some (docOffset ?segs p, docOffset ?segs (p + length needle - 1) + 1))"
  proof (cases "drop (k - 1) (matchesFrom ?text needle 0)")
    case Nil
    then show ?thesis by simp
  next
    case (Cons p rest)
    then have "p \<in> set (drop (k - 1) (matchesFrom ?text needle 0))" by simp
    then have "p \<in> set (matchesFrom ?text needle 0)" by (rule in_set_dropD)
    from mapping_of_match(1)[OF assms(3) io(3) inside[OF this]] Cons show ?thesis by simp
  qed
  with loop show ?thesis by (simp add: findTextIn_def io(1,2))
qed

lemma findTextIn_zero: "findTextIn content needle 0 = Some None"
  by (simp add: findTextIn_def searchLoop.simps split: prod.splits)

text \<open>
  Claim C2, amended.  For a tree in document order with offsets that are not negative,
  and a needle that is not empty, the search terminates and counts the occurrences of
  the needle in the document text from left to right, from 1, each search starting one
  character after the start of the match before it, so that the occurrences counted may
  overlap.  For \<open>k\<close> from 1 to the number of these occurrences the result is the
  range of the \<open>k\<close>-th of them: from the document position of its first character
  to one past the document position of its last character.  The start offsets returned
  grow strictly with \<open>k\<close>, and the result is \<open>null\<close> for \<open>k = 0\<close> and for every
  \<open>k\<close> greater than the number of occurrences.
\<close>

theorem findTextIn_occurrences:
  assumes "contentInOrder lo hi content" "0 \<le> lo" "needle \<noteq> []"
  shows "(1 \<le> k \<and> k \<le> length (matchesFrom (documentText content) needle 0) \<longrightarrow>
            findTextIn content needle k =
              Some (Some (docOffset (flatten content)
                            (matchesFrom (documentText content) needle 0 ! (k - 1)),
                          docOffset (flatten content)
                            (matchesFrom (documentText content) needle 0 ! (k - 1) +
                             length needle - 1) + 1))) \<and>
         (k = 0 \<or> length (matchesFrom (documentText content) needle 0) < k \<longrightarrow>
            findTextIn content needle k = Some None) \<and>
         (1 \<le> j \<and> j < k \<and> k \<le> length (matchesFrom (documentText content) needle 0) \<longrightarrow>
            (\<exists>a b c d. findTextIn content needle j = Some (Some (a, b)) \<and>
               findTextIn content needle k = Some (Some (c, d)) \<and> a < c))"
proof -
  let ?ms = "matchesFrom (documentText content) needle 0"
  let ?segs = "flatten content"
  note io = in_order_facts[OF assms(1,2)]
  have found: "findTextIn content needle i =
      Some (Some (docOffset ?segs (?ms ! (i - 1)),
                  docOffset ?segs (?ms ! (i - 1) + length needle - 1) + 1))"
    if "1 \<le> i" "i \<le> length ?ms" for i
  proof -
    have "i - 1 < length ?ms" using that by arith
    then have "drop (i - 1) ?ms = ?ms ! (i - 1) # drop (Suc (i - 1)) ?ms"
      by (simp add: Cons_nth_drop_Suc)
    with findTextIn_result[OF assms that(1)] show ?thesis by simp
  qed
  have none: "findTextIn content needle k = Some None"
    if "k = 0 \<or> length ?ms < k"
  proof (cases "k = 0")
    case True
    then show ?thesis by (simp add: findTextIn_zero)
  next
    case False
    with that have "1 \<le> k" "drop (k - 1) ?ms = []" by simp_all
    with findTextIn_result[OF assms, of k] show ?thesis by simp
  qed
  have mono: "docOffset ?segs (?ms ! (j - 1)) < docOffset ?segs (?ms ! (k - 1))"
    if "1 \<le> j" "j < k" "k \<le> length ?ms"
  proof -
    have idx: "j - 1 < k - 1" "k - 1 < length ?ms" using that by arith+
    from sorted_wrt_nth_less[OF matchesFrom_strict idx]
    have lt: "?ms ! (j - 1) < ?ms ! (k - 1)" .
    have "?ms ! (k - 1) \<in> set ?ms" using idx(2) by simp
    from match_in_text[OF assms(3) matchesFrom_member[OF this]]
    have "?ms ! (k - 1) < length (concat (map seg_text ?segs))"
      using assms(3) io(4) by (cases needle) simp_all
    from docOffset_mono[OF io(5) lt this] show ?thesis .
  qed
  show ?thesis
  proof (intro conjI impI)
    assume "1 \<le> k \<and> k \<le> length ?ms"
    then show "findTextIn content needle k =
       Some (Some (docOffset ?segs (?ms ! (k - 1)),
                   docOffset ?segs (?ms ! (k - 1) + length needle - 1) + 1))"
      using found[of k] by simp
  next
    assume "k = 0 \<or> length ?ms < k"
    then show "findTextIn content needle k = Some None" by (rule none)
  next
    assume a: "1 \<le> j \<and> j < k \<and> k \<le> length ?ms"
    then have "1 \<le> j" "j \<le> length ?ms" "1 \<le> k" "k \<le> length ?ms" by simp_all
    from found[OF this(1,2)] found[OF this(3,4)] mono a
    show "\<exists>a b c d. findTextIn content needle j = Some (Some (a, b)) \<and>
             findTextIn content needle k = Some (Some (c, d)) \<and> a < c"
      by blast
  qed
qed

theorem findTextIn_occurrences_witness:
  "findTextIn exampleDocument [97, 97] 1 = Some (Some (10, 12)) \<and>
   findTextIn exampleDocument [97, 97] 2 = Some (Some (11, 13)) \<and>
   findTextIn exampleDocument [97, 97] 3 = Some None"
proof -
  have h: "contentInOrder 0 14 exampleDocument" by code_simp
  have ms: "matchesFrom (documentText exampleDocument) [97, 97] 0 = [5, 6]" by code_simp
  have d: "docOffset (flatten exampleDocument) 5 = 10" "docOffset (flatten exampleDocument) 6 = 11"
    "docOffset (flatten exampleDocument) 7 = 12"
    by code_simp+
  from findTextIn_occurrences[OF h, of "[97, 97]" 1 0]
    findTextIn_occurrences[OF h, of "[97, 97]" 2 1]
    findTextIn_occurrences[OF h, of "[97, 97]" 3 1]
  show ?thesis by (simp add: ms d)
qed

theorem findTextIn_occurrences_counterexample:
  "nonOverlappingMatches (documentText [paragraphAt 1 [97, 97, 97]]) [97, 97] = [0] \<and>
   findTextIn [paragraphAt 1 [97, 97, 97]] [97, 97] 2 = Some (Some (2, 4)) \<and>
   findTextIn [paragraphAt 1 [97], paragraphAt 1 [97]] [97] 1 = Some (Some (1, 2)) \<and>
   findTextIn [paragraphAt 1 [97], paragraphAt 1 [97]] [97] 2 = Some (Some (1, 2))"
  by code_simp

lemma searchLoop_reject:
  assumes "foundCount < k" "indexOf fullText needle s = Some cur"
    "foundCount + 1 = k"
    "fst (mapToDocument segs 0 (-1) cur (cur + length needle)) = -1 \<or>
     snd (mapToDocument segs 0 (-1) cur (cur + length needle)) = -1"
  shows "searchLoop fullText segs needle k foundCount s =
         searchLoop fullText segs needle k foundCount (cur + 1)"
  using assms
  by (subst searchLoop.simps) (auto split: prod.splits)

lemma findTextIn_only_match:
  assumes "contentInOrder lo hi content" "0 \<le> lo" "needle \<noteq> []"
    "matchesFrom (documentText content) needle 0 = [q]"
  shows "findTextIn content needle 1 =
     Some (Some (docOffset (flatten content) q,
                 docOffset (flatten content) (q + length needle - 1) + 1))"
  using findTextIn_result[OF assms(1,2,3), of 1] assms(4) by simp

text \<open>
  Claim C4, amended.  When the mapping leaves the start or the end at \<open>-1\<close>, the
  search rejects the match and goes on one character after its start, with the count of
  occurrences as it was before the match.  For a needle that is not empty and segments
  whose start offsets are not negative this never happens: every occurrence in the
  concatenated text is mapped, its start from the segment that holds its first
  character and its end from the segment that holds its last character, whether or not
  offsets lie between the two segments.  So, in a tree in document order, a needle
  whose only occurrence straddles a gap is returned, as a range that spans the gap.
\<close>

theorem searchLoop_mapping:
  "(foundCount < k \<and> indexOf fullText needle s = Some cur \<and>
    foundCount + 1 = k \<and>
    (fst (mapToDocument segs 0 (-1) cur (cur + length needle)) = -1 \<or>
     snd (mapToDocument segs 0 (-1) cur (cur + length needle)) = -1) \<longrightarrow>
      searchLoop fullText segs needle k foundCount s =
      searchLoop fullText segs needle k foundCount (cur + 1)) \<and>
   (needle \<noteq> [] \<and> list_all (\<lambda>seg. 0 \<le> seg_start seg) segs \<and>
    p + length needle \<le> length (concat (map seg_text segs)) \<longrightarrow>
      mapToDocument segs 0 (-1) p (p + length needle) =
        (docOffset segs p, docOffset segs (p + length needle - 1) + 1) \<and>
      0 \<le> docOffset segs p \<and> 0 \<le> docOffset segs (p + length needle - 1)) \<and>
   (contentInOrder lo hi content \<and> 0 \<le> lo \<and> needle \<noteq> [] \<and>
    matchesFrom (documentText content) needle 0 = [q] \<longrightarrow>
      findTextIn content needle 1 =
        Some (Some (docOffset (flatten content) q,
                    docOffset (flatten content) (q + length needle - 1) + 1)))"
  using searchLoop_reject[of foundCount k fullText needle s cur segs]
    mapping_of_match[of needle segs p]
    findTextIn_only_match[of lo hi content needle q]
  by blast

theorem searchLoop_mapping_witness:
  "searchLoop [97, 98] [\<lparr>seg_text = [97, 98], seg_start = -1, seg_end = 1\<rparr>] [97, 98] 1 0 0 =
     searchLoop [97, 98] [\<lparr>seg_text = [97, 98], seg_start = -1, seg_end = 1\<rparr>] [97, 98] 1 0 1 \<and>
   mapToDocument (flatten gapDocument) 0 (-1) 0 2 = (1, 6) \<and>
   findTextIn gapDocument [97, 98] 1 = Some (Some (1, 6))"
proof -
  have h: "contentInOrder 0 6 gapDocument" by code_simp
  have ms: "matchesFrom (documentText gapDocument) [97, 98] 0 = [0]" by code_simp
  have fl: "flatten gapDocument =
      [\<lparr>seg_text = [97], seg_start = 1, seg_end = 2\<rparr>,
       \<lparr>seg_text = [98], seg_start = 5, seg_end = 6\<rparr>]" by code_simp
  have ix: "indexOf [97, 98] [97, 98] 0 = Some 0" by code_simp
  have mp: "mapToDocument [\<lparr>seg_text = [97, 98], seg_start = -1, seg_end = 1\<rparr>] 0 (-1) 0 2 =
      (-1, 1)" by code_simp
  from searchLoop_mapping[where foundCount = 0 and k = 1 and fullText = "[97, 98]"
      and needle = "[97, 98]" and s = 0 and cur = 0
      and segs = "[\<lparr>seg_text = [97, 98], seg_start = -1, seg_end = 1\<rparr>]"]
    searchLoop_mapping[where needle = "[97, 98]" and segs = "flatten gapDocument" and p = 0
      and lo = 0 and hi = 6 and content = gapDocument and q = 0]
    h ms ix mp
  show ?thesis by (simp add: fl)
qed

theorem searchLoop_mapping_counterexample:
  "flatten gapDocument =
      [\<lparr>seg_text = [97], seg_start = 1, seg_end = 2\<rparr>,
       \<lparr>seg_text = [98], seg_start = 5, seg_end = 6\<rparr>] \<and>
   matchesFrom (documentText gapDocument) [97, 98] 0 = [0] \<and>
   findTextIn gapDocument [97, 98] 1 = Some (Some (1, 6))"
  by code_simp


subsection \<open>Descending batches\<close>

lemma match_marker_Nil: "match_marker [] = None"
  by (simp add: match_marker_def match_numbered_def)

lemma markerText_in_order:
  "runsInOrder lo hi pes \<Longrightarrow>
   fst (markerText pes (pt, t0)) = pt @ concat (runsOfElements pes) \<and>
   lo + int (length (concat (runsOfElements pes))) \<le> hi \<and>
   (pt \<noteq> [] \<or> concat (runsOfElements pes) = [] \<longrightarrow> snd (markerText pes (pt, t0)) = t0) \<and>
   (pt = [] \<and> concat (runsOfElements pes) \<noteq> [] \<longrightarrow>
      lo \<le> snd (markerText pes (pt, t0)) \<and>
      snd (markerText pes (pt, t0)) + int (length (concat (runsOfElements pes))) \<le> hi)"
proof (induction pes arbitrary: lo pt t0)
  case Nil
  then show ?case by (simp add: runsOfElements_def)
next
  case (Cons pe pes)
  define c where "c = (case pe_content pe of Some c \<Rightarrow> c | None \<Rightarrow> [])"
  from Cons.prems obtain s e where se: "pe_startIndex pe = Some s" "pe_endIndex pe = Some e"
    and b: "lo \<le> s" "s + int (length c) \<le> e" and rest: "runsInOrder e hi pes"
    unfolding c_def by (auto split: option.splits)
  let ?N = "concat (runsOfElements pes)"
  have runs: "concat (runsOfElements (pe # pes)) = c @ ?N"
    by (simp add: runsOfElements_def c_def)
  have le: "lo \<le> e" using b by linarith
  show ?case
  proof (cases "c = []")
    case True
    then have step: "markerText (pe # pes) (pt, t0) = markerText pes (pt, t0)"
      using se by (auto simp: c_def split: option.splits)
    from Cons.IH[OF rest, of pt t0] True le show ?thesis
      unfolding step runs by auto
  next
    case False
    then have pc: "pe_content pe = Some c" by (auto simp: c_def split: option.splits)
    have step: "markerText (pe # pes) (pt, t0) =
        markerText pes (pt @ c, if pt = [] then s else t0)"
      using se pc False by simp
    from Cons.IH[OF rest, of "pt @ c" "if pt = [] then s else t0"] False b
    show ?thesis
      unfolding step runs by auto
  qed
qed

lemma deleteRequestFor_range:
  assumes "deleteRequestFor (StructuralElement s e p t) = Some r"
    and "e = Some b" and "a = (case s of Some a \<Rightarrow> a | None \<Rightarrow> 0)"
    and "p = Some (Paragraph pes)"
    and "runsInOrder a b (case pes of Some xs \<Rightarrow> xs | None \<Rightarrow> [])"
  shows "a \<le> requestStart r \<and> requestStart r < b"
proof -
  let ?pes = "case pes of Some xs \<Rightarrow> xs | None \<Rightarrow> []"
  let ?N = "concat (runsOfElements ?pes)"
  from assms(1,4) obtain a' where s: "s = Some a'"
    by (cases s) (auto simp: deleteRequestFor_def)
  with assms(3) have a: "a' = a" by simp
  obtain ptext tsi where mt: "markerText ?pes ([], a) = (ptext, tsi)"
    by (cases "markerText ?pes ([], a)")
  from markerText_in_order[OF assms(5), of "[]" a] mt
  have ptext: "ptext = ?N"
    and bnd: "?N \<noteq> [] \<longrightarrow> a \<le> tsi \<and> tsi + int (length ?N) \<le> b"
    by simp_all
  from assms(1) obtain m where m: "match_marker (trimStart ptext) = Some m"
    and r: "r = DeleteContentRange
              (tsi + (int (length ptext) - int (length (trimStart ptext))))
              (tsi + (int (length ptext) - int (length (trimStart ptext))) + int (length m))"
    unfolding deleteRequestFor_def s a assms(4)
    by (auto simp: mt Let_def split: option.splits)
  from m have ne: "trimStart ptext \<noteq> []" using match_marker_Nil by auto
  then have "ptext \<noteq> []" by (auto simp: trimStart_def)
  with bnd ptext have b2: "a \<le> tsi" "tsi + int (length ptext) \<le> b" by simp_all
  have l1: "int (length (trimStart ptext)) \<le> int (length ptext)"
    by (simp add: trimStart_def length_dropWhile_le)
  have l2: "1 \<le> int (length (trimStart ptext))" using ne by (cases "trimStart ptext") simp_all
  have ds: "requestStart r = tsi + (int (length ptext) - int (length (trimStart ptext)))"
    using r by simp
  show ?thesis unfolding ds using b2 l1 l2 by linarith
qed

lemma deleteRequests_ascending:
  "contentInOrder lo hi content \<Longrightarrow>
   sorted_wrt (<) (map requestStart (List.map_filter deleteRequestFor content)) \<and>
   (\<forall>r\<in>set (List.map_filter deleteRequestFor content). lo \<le> requestStart r)"
proof (induction content arbitrary: lo)
  case Nil
  show ?case by (simp add: List.map_filter_simps)
next
  case (Cons el els)
  obtain s e p t where el: "el = StructuralElement s e p t" by (cases el)
  from Cons.prems obtain b where e: "e = Some b"
    unfolding el by (cases e) auto
  define a where "a = (case s of Some a \<Rightarrow> a | None \<Rightarrow> 0)"
  from Cons.prems have ab: "lo \<le> a" "a \<le> b" and rest: "contentInOrder b hi els"
    and para: "\<And>pes. p = Some (Paragraph pes) \<Longrightarrow>
        runsInOrder a b (case pes of Some xs \<Rightarrow> xs | None \<Rightarrow> [])"
    unfolding el e a_def by (auto simp: Let_def split: option.splits paragraphNode.splits)
  note ih = Cons.IH[OF rest]
  show ?case
  proof (cases "deleteRequestFor el")
    case None
    with ih ab show ?thesis by (fastforce simp: List.map_filter_simps)
  next
    case (Some r)
    then obtain pn where p: "p = Some pn"
      unfolding el by (cases p) (auto simp: deleteRequestFor_def)
    obtain pes where pn: "pn = Paragraph pes" by (cases pn)
    from deleteRequestFor_range[OF Some[unfolded el] e a_def _ para] p pn
    have rng: "a \<le> requestStart r" "requestStart r < b" by simp_all
    with ih ab Some show ?thesis by (fastforce simp: List.map_filter_simps)
  qed
qed

lemma deleteRequests_descending:
  "contentInOrder lo hi content \<Longrightarrow> strictlyDescending (deleteRequests content)"
  using deleteRequests_ascending[of lo hi content]
  by (simp add: strictlyDescending_def deleteRequests_def rev_map[symmetric] sorted_wrt_rev
      conversep_iff[abs_def])


lemma subseq_distinct: "subseq xs ys \<Longrightarrow> distinct ys \<Longrightarrow> distinct xs"
proof (induction rule: list_emb.induct)
  case (list_emb_Nil ys)
  show ?case by simp
next
  case (list_emb_Cons xs ys y)
  then show ?case by simp
next
  case (list_emb_Cons2 x y xs ys)
  then have "x \<notin> set xs" by (auto elim: list_emb_set)
  with list_emb_Cons2 show ?case by simp
qed

lemma subseq_concat_enumerate:
  assumes "\<And>i x. subseq (map f (F i x)) (G x)"
  shows "subseq (map f (concat (map (\<lambda>(i, x). F i x) (enumerate n xs)))) (concat (map G xs))"
proof (induction xs arbitrary: n)
  case Nil
  show ?case by simp
next
  case (Cons x xs)
  show ?case using assms[of n x] Cons[of "Suc n"]
    by (simp add: list_emb_append_mono)
qed

lemma map_filter_concat_map:
  "List.map_filter h xs = concat (map (\<lambda>x. case h x of None \<Rightarrow> [] | Some k \<Rightarrow> [k]) xs)"
  by (induction xs) (simp_all add: List.map_filter_simps split: option.splits)

lemma map_filter_concat:
  "List.map_filter h (concat xss) = concat (map (List.map_filter h) xss)"
  by (induction xss) (simp_all add: List.map_filter_def)

lemma cellInsertionFor_index:
  "subseq (map ci_index (cellInsertionFor lower headers rows bH bT i j cell))
     (case cellInsertionIndex cell of None \<Rightarrow> [] | Some k \<Rightarrow> [k])"
  by (auto simp: cellInsertionFor_def cellInsertionIndex_def Let_def
      split: option.splits list.splits)

lemma collectCellInsertions_indices:
  "subseq (map ci_index (collectCellInsertions lower headers rows bH bT tableElement))
     (tableInsertionIndices tableElement)"
proof -
  let ?cellsOf = "\<lambda>row. case tableCells row of Some cs \<Rightarrow> cs | None \<Rightarrow> []"
  let ?rows = "case tableRows tableElement of Some rs \<Rightarrow> rs | None \<Rightarrow> []"
  let ?F = "\<lambda>rowIdx row. concat (map (\<lambda>(colIdx, cell).
                cellInsertionFor lower headers rows bH bT rowIdx colIdx cell)
                (enumerate 0 (?cellsOf row)))"
  have inner: "subseq (map ci_index (?F i row)) (List.map_filter cellInsertionIndex (?cellsOf row))"
    for i row
    unfolding map_filter_concat_map[of cellInsertionIndex]
    by (rule subseq_concat_enumerate) (rule cellInsertionFor_index)
  have "subseq (map ci_index (concat (map (\<lambda>(i, row). ?F i row) (enumerate 0 ?rows))))
          (concat (map (\<lambda>row. List.map_filter cellInsertionIndex (?cellsOf row)) ?rows))"
    by (rule subseq_concat_enumerate) (rule inner)
  then show ?thesis
    by (simp add: collectCellInsertions_def tableInsertionIndices_def Let_def
        map_filter_concat comp_def)
qed

lemma distinct_map_insort_key:
  "distinct (map f (insort_key g x xs)) = distinct (map f (x # xs))"
  by (induction xs) (auto simp: set_insort_key)

lemma distinct_map_sort_key: "distinct (map f (sort_key g xs)) = distinct (map f xs)"
  by (induction xs) (simp_all add: distinct_map_insort_key)

lemma descending_of_sorted:
  "sorted (map (\<lambda>c. - f c) xs) \<Longrightarrow> distinct (map f xs) \<Longrightarrow> sorted_wrt (>) (map (f :: 'a \<Rightarrow> int) xs)"
proof (induction xs)
  case Nil
  show ?case by simp
next
  case (Cons x xs)
  then have le: "\<forall>y\<in>set xs. f y \<le> f x" and ne: "\<forall>y\<in>set xs. f y \<noteq> f x"
    by (auto simp: image_iff)
  then have "\<forall>y\<in>set xs. f y < f x" by (simp add: less_le)
  with Cons show ?case by simp
qed

lemma textRequests_starts: "map requestStart (textRequests xs) = map ci_index xs"
  by (simp add: textRequests_def comp_def)

lemma textRequests_descending:
  assumes "distinct (tableInsertionIndices tableElement)"
  shows "strictlyDescending (textRequests (sortInsertions
           (collectCellInsertions lower headers rows bH bT tableElement)))"
proof -
  let ?xs = "collectCellInsertions lower headers rows bH bT tableElement"
  have "distinct (map ci_index ?xs)"
    using subseq_distinct[OF collectCellInsertions_indices assms] .
  then have d: "distinct (map ci_index (sortInsertions ?xs))"
    by (simp add: sortInsertions_def distinct_map_sort_key)
  have s: "sorted (map (\<lambda>c. - ci_index c) (sortInsertions ?xs))"
    by (simp add: sortInsertions_def)
  show ?thesis
    unfolding strictlyDescending_def textRequests_starts
    by (rule descending_of_sorted[OF s d])
qed

lemma executeBatchUpdate_document:
  "batchUpdate rs (document w) = Inr (resp, doc) \<Longrightarrow> rs \<noteq> [] \<Longrightarrow>
   executeBatchUpdate batchUpdate (Some rs) w =
     (Inr resp, (if length rs > MAX_BATCH_UPDATE_REQUESTS then w\<lparr>warnings := warnings w + 1\<rparr> else w)
        \<lparr>submitted := submitted w @ [rs], document := doc\<rparr>)"
  by (simp add: executeBatchUpdate_def Let_def)

lemma executeBatchUpdate_cases:
  "rs \<noteq> [] \<Longrightarrow>
   \<exists>r w'. executeBatchUpdate batchUpdate (Some rs) w = (r, w') \<and>
      submitted w' = submitted w @ [rs]"
  by (simp add: executeBatchUpdate_def Let_def split: sum.splits prod.splits)

lemma detectAndFormatLists_batches:
  assumes "document w = Inr (Some content)"
    and "bulletRequests startIndex endIndex content \<noteq> []"
    and "batchUpdate (bulletRequests startIndex endIndex content) (document w) =
           Inr (resp, Inr (Some updated))"
  shows "submitted (snd (detectAndFormatLists batchUpdate startIndex endIndex w)) =
           submitted w @ [bulletRequests startIndex endIndex content] @
           (if deleteRequests updated = [] then [] else [deleteRequests updated])"
proof -
  let ?rs = "bulletRequests startIndex endIndex content"
  note e1 = executeBatchUpdate_document[of batchUpdate ?rs w resp "Inr (Some updated)", OF assms(3,2)]
  show ?thesis
  proof (cases "deleteRequests updated = []")
    case True
    then show ?thesis using assms(1,2) by (simp add: detectAndFormatLists_def e1 Let_def)
  next
    case False
    let ?w1 = "(if length ?rs > MAX_BATCH_UPDATE_REQUESTS then w\<lparr>warnings := warnings w + 1\<rparr> else w)
        \<lparr>submitted := submitted w @ [?rs], document := Inr (Some updated)\<rparr>"
    from executeBatchUpdate_cases[OF False, of batchUpdate ?w1]
    obtain r w' where e2: "executeBatchUpdate batchUpdate (Some (deleteRequests updated)) ?w1 = (r, w')"
      and s2: "submitted w' = submitted ?w1 @ [deleteRequests updated]" by blast
    show ?thesis using assms(1,2) False e2 s2
      by (cases r) (simp_all add: detectAndFormatLists_def e1 Let_def)
  qed
qed

lemma createTableWithData_batches:
  assumes "headers \<noteq> []"
    and "batchUpdate [InsertTable (int (length rows) + 1) (int (length headers)) insertIndex]
           (document w) = Inr (resp, Inr (Some content))"
    and "find (isInsertedTable insertIndex) content = Some element"
    and "se_table element = Some tableElement"
    and "textRequests (sortInsertions (collectCellInsertions toLowerCase headers rows
           boldHeaders boldTotalRow tableElement)) \<noteq> []"
  shows "\<exists>more. submitted (snd (createTableWithData batchUpdate toLowerCase insertIndex headers
            rows boldHeaders boldTotalRow w)) =
           submitted w @
           [[InsertTable (int (length rows) + 1) (int (length headers)) insertIndex],
            textRequests (sortInsertions (collectCellInsertions toLowerCase headers rows
              boldHeaders boldTotalRow tableElement))] @ more"
proof -
  let ?it = "[InsertTable (int (length rows) + 1) (int (length headers)) insertIndex]"
  let ?ci = "sortInsertions (collectCellInsertions toLowerCase headers rows
              boldHeaders boldTotalRow tableElement)"
  let ?trs = "textRequests ?ci"
  have ne: "?it \<noteq> []" by simp
  note e1 = executeBatchUpdate_document[of batchUpdate ?it w resp "Inr (Some content)", OF assms(2) ne]
  let ?w1 = "w\<lparr>submitted := submitted w @ [?it], document := Inr (Some content)\<rparr>"
  have w1: "(if length ?it > MAX_BATCH_UPDATE_REQUESTS then w\<lparr>warnings := warnings w + 1\<rparr> else w)
        \<lparr>submitted := submitted w @ [?it], document := Inr (Some content)\<rparr> = ?w1"
    by (simp add: MAX_BATCH_UPDATE_REQUESTS_def)
  from assms(3) have "isInsertedTable insertIndex element" by (auto simp: find_Some_iff)
  with assms(4) obtain tsi where tsi: "se_startIndex element = Some tsi"
    by (auto simp: isInsertedTable_def split: option.splits)
  from executeBatchUpdate_cases[OF assms(5), of batchUpdate ?w1]
  obtain r2 w2 where e2: "executeBatchUpdate batchUpdate (Some ?trs) ?w1 = (r2, w2)"
    and s2: "submitted w2 = submitted w @ [?it, ?trs]" by auto
  have main: "createTableWithData batchUpdate toLowerCase insertIndex headers
            rows boldHeaders boldTotalRow w =
      (case r2 of
         Inl e \<Rightarrow> (Inl e, w2)
       | Inr resp \<Rightarrow>
           if length (filter ci_isBold ?ci) > 0 then
             (case document w2 of
                Inl e \<Rightarrow> (Inl (Rejected e), w2)
              | Inr None \<Rightarrow> (Inr (TableResult True tsi), w2)
              | Inr (Some after) \<Rightarrow>
                  let brs = boldRequests toLowerCase rows boldHeaders boldTotalRow tsi after
                  in if length brs > 0 then
                       (case executeBatchUpdate batchUpdate (Some brs) w2 of
                          (Inl e, w3) \<Rightarrow> (Inl e, w3)
                        | (Inr r3, w3) \<Rightarrow> (Inr (TableResult True tsi), w3))
                     else (Inr (TableResult True tsi), w2))
           else (Inr (TableResult True tsi), w2))"
    using assms(1,3,4,5) tsi e2
    by (simp add: createTableWithData_def e1 MAX_BATCH_UPDATE_REQUESTS_def Let_def)
  show ?thesis
  proof (cases r2)
    case (Inl e)
    with main s2 show ?thesis by simp
  next
    case (Inr resp2)
    show ?thesis
    proof (cases "length (filter ci_isBold ?ci) > 0")
      case False
      with main Inr s2 show ?thesis by simp
    next
      case True
      show ?thesis
      proof (cases "document w2")
        case (Inl e)
        with main \<open>r2 = Inr resp2\<close> True s2 show ?thesis by simp
      next
        case (Inr d)
        show ?thesis
        proof (cases d)
          case None
          with main \<open>r2 = Inr resp2\<close> True s2 Inr show ?thesis by simp
        next
          case (Some after)
          let ?brs = "boldRequests toLowerCase rows boldHeaders boldTotalRow tsi after"
          show ?thesis
          proof (cases "?brs = []")
            case True
            with main \<open>r2 = Inr resp2\<close> \<open>0 < length (filter ci_isBold ?ci)\<close> s2 Inr Some
            show ?thesis by simp
          next
            case False
            from executeBatchUpdate_cases[OF False, of batchUpdate w2]
            obtain r3 w3 where e3: "executeBatchUpdate batchUpdate (Some ?brs) w2 = (r3, w3)"
              and s3: "submitted w3 = submitted w2 @ [?brs]" by blast
            with main \<open>r2 = Inr resp2\<close> \<open>0 < length (filter ci_isBold ?ci)\<close> s2 Inr Some False
            show ?thesis by (cases r3) (simp_all add: Let_def)
          qed
        qed
      qed
    qed
  qed
qed

text \<open>
  Claim C1.  The batch of marker deletions of the second phase of
  \<open>detectAndFormatLists\<close> is in strictly descending order of start offset whenever
  the tree fetched for that phase is in document order, and it is the batch submitted
  after the bullet requests; the batch of text insertions of \<open>createTableWithData\<close>
  is in strictly descending order of insertion offset whenever the insertion offsets of
  the cells of the table are distinct, and it is the batch submitted after the table
  insertion.
\<close>

theorem batches_descending:
  "(contentInOrder lo hi updated \<longrightarrow> strictlyDescending (deleteRequests updated)) \<and>
   (document w = Inr (Some content) \<and> bulletRequests startIndex endIndex content \<noteq> [] \<and>
    batchUpdate (bulletRequests startIndex endIndex content) (document w) =
      Inr (resp, Inr (Some updated)) \<longrightarrow>
      submitted (snd (detectAndFormatLists batchUpdate startIndex endIndex w)) =
        submitted w @ [bulletRequests startIndex endIndex content] @
        (if deleteRequests updated = [] then [] else [deleteRequests updated])) \<and>
   (distinct (tableInsertionIndices tableElement) \<longrightarrow>
      strictlyDescending (textRequests (sortInsertions
        (collectCellInsertions toLowerCase headers rows boldHeaders boldTotalRow tableElement)))) \<and>
   (headers \<noteq> [] \<and>
    batchUpdate [InsertTable (int (length rows) + 1) (int (length headers)) insertIndex]
      (document w) = Inr (resp, Inr (Some inserted)) \<and>
    find (isInsertedTable insertIndex) inserted = Some element \<and>
    se_table element = Some tableElement \<and>
    textRequests (sortInsertions (collectCellInsertions toLowerCase headers rows
      boldHeaders boldTotalRow tableElement)) \<noteq> [] \<longrightarrow>
      (\<exists>later. submitted (snd (createTableWithData batchUpdate toLowerCase insertIndex headers
            rows boldHeaders boldTotalRow w)) =
         submitted w @
         [[InsertTable (int (length rows) + 1) (int (length headers)) insertIndex],
          textRequests (sortInsertions (collectCellInsertions toLowerCase headers rows
            boldHeaders boldTotalRow tableElement))] @ later))"
  using deleteRequests_descending[of lo hi updated]
    detectAndFormatLists_batches[of w content startIndex endIndex batchUpdate resp updated]
    textRequests_descending[of tableElement toLowerCase headers rows boldHeaders boldTotalRow]
    createTableWithData_batches[of headers batchUpdate rows insertIndex w resp inserted element
      tableElement toLowerCase boldHeaders boldTotalRow]
  by blast

lemma listDocument_requests:
  "bulletRequests None None listDocument =
     [CreateParagraphBullets 1 5 BULLET_DISC_CIRCLE_SQUARE,
      CreateParagraphBullets 5 12 NUMBERED_DECIMAL_NESTED]"
  "deleteRequests listDocument = [DeleteContentRange 7 10, DeleteContentRange 1 3]"
  by (simp_all add: bulletRequests_def bulletRequestFor_def detectMarker_def paragraphTextOf_def
      deleteRequests_def deleteRequestFor_def listDocument_def paragraphAt_def
      trimStart_def isWhiteSpace_def match_marker_def match_numbered_def test_numbered_def
      isDigit_def isBulletGlyph_def isDotOrParen_def isLetter_def List.map_filter_simps Let_def)

lemma twoCellTable_requests:
  "textRequests (sortInsertions (collectCellInsertions id [[65], [66]] [] True True twoCellTable)) =
     [InsertText 9 [66], InsertText 7 [65]]"
  by code_simp

theorem batches_descending_witness:
  "submitted (snd (detectAndFormatLists (respondWith listDocument) None None
      (worldWith listDocument))) =
     [[CreateParagraphBullets 1 5 BULLET_DISC_CIRCLE_SQUARE,
       CreateParagraphBullets 5 12 NUMBERED_DECIMAL_NESTED],
      [DeleteContentRange 7 10, DeleteContentRange 1 3]] \<and>
   strictlyDescending [DeleteContentRange 7 10, DeleteContentRange 1 3] \<and>
   strictlyDescending [InsertText 9 [66], InsertText 7 [65]] \<and>
   (\<exists>later. submitted (snd (createTableWithData (respondWith twoCellDocument) id 5 [[65], [66]] []
      True True (worldWith []))) =
     [[InsertTable 1 2 5], [InsertText 9 [66], InsertText 7 [65]]] @ later)"
proof -
  have h1: "contentInOrder 0 12 listDocument" by code_simp
  have h2: "distinct (tableInsertionIndices twoCellTable)" by code_simp
  have h3: "find (isInsertedTable 5) twoCellDocument =
      Some (StructuralElement (Some 5) (Some 11) None (Some twoCellTable))"
    by (simp add: twoCellDocument_def isInsertedTable_def)
  note inst = batches_descending[where lo = 0 and hi = 12 and updated = listDocument
      and content = listDocument and w = "worldWith listDocument"
      and batchUpdate = "respondWith listDocument" and startIndex = None and endIndex = None
      and resp = emptyResponse and tableElement = twoCellTable and toLowerCase = id
      and headers = "[[65], [66]]" and rows = "[]" and boldHeaders = True
      and boldTotalRow = True]
  note inst2 = batches_descending[where w = "worldWith []"
      and batchUpdate = "respondWith twoCellDocument"
      and resp = emptyResponse and tableElement = twoCellTable and toLowerCase = id
      and headers = "[[65], [66]]" and rows = "[]" and boldHeaders = True
      and boldTotalRow = True and insertIndex = 5 and inserted = twoCellDocument
      and element = "StructuralElement (Some 5) (Some 11) None (Some twoCellTable)"]
  from inst inst2 h1 h2 h3 show ?thesis
    by (simp add: listDocument_requests twoCellTable_requests worldWith_def respondWith_def)
qed

end
